theory Spec2Isabelle
  imports Complex_Main
begin

section \<open>Python values used by the scraper\<close>

text \<open>
  A Python \<open>str\<close> is modelled as a \<open>string\<close>, one \<open>char\<close> per code point (code
  points below 256). Python floats are modelled as exact reals; \<open>None\<close> is the
  \<open>None\<close> of an option type; an exception is a value of \<open>py_exception\<close>.
\<close>

datatype py_exception =
  ZeroDivisionError
  | AttributeError
  | TimeoutException
  | NoSuchElementException
  | WebDriverException

text \<open>\<open>s.startswith(p)\<close>\<close>

fun startswith :: "string \<Rightarrow> string \<Rightarrow> bool" where
  "startswith s [] = True"
| "startswith [] (p # ps) = False"
| "startswith (c # cs) (p # ps) = (c = p \<and> startswith cs ps)"

text \<open>\<open>p in s\<close> for two strings: \<open>p\<close> occurs in \<open>s\<close> as a contiguous substring.\<close>

fun str_in :: "string \<Rightarrow> string \<Rightarrow> bool" where
  "str_in p [] = (p = [])"
| "str_in p (c # cs) = (startswith (c # cs) p \<or> str_in p cs)"

text \<open>\<open>random.choice(xs)\<close> on a non-empty list, \<open>r\<close> being the generator's raw draw.\<close>

definition choice :: "nat \<Rightarrow> 'a list \<Rightarrow> 'a" where
  "choice r xs = xs ! (r mod length xs)"

text \<open>\<open>s.lower()\<close> on code points below 256: the letters \<open>A-Z\<close> and the upper-case
  letters of Latin-1 (\<open>0xC0-0xDE\<close> without \<open>0xD7\<close>) move up by 32. Beyond this range
  \<open>str.lower\<close> can change the length of a string (U+0130 becomes two code points);
  the detectors measure the lowered source, and so do the statements about them below:
  every size check is on \<open>length (lower (page_source d))\<close>, never on the raw source.\<close>

definition lower_char :: "char \<Rightarrow> char" where
  "lower_char c =
     (let n = (of_char c :: nat) in
      if (65 \<le> n \<and> n \<le> 90) \<or> (192 \<le> n \<and> n \<le> 222 \<and> n \<noteq> 215)
      then char_of (n + 32) else c)"

definition lower :: "string \<Rightarrow> string" where
  "lower s = map lower_char s"

text \<open>\<open>str(n)\<close> for a non-negative integer.\<close>

fun str_nat :: "nat \<Rightarrow> string" where
  "str_nat n =
     (if n < 10 then [char_of (48 + n)]
      else str_nat (n div 10) @ [char_of (48 + n mod 10)])"

declare str_nat.simps [simp del]

section \<open>anti\_block.py: ProxyManager\<close>

record ProxyManager =
  proxy_list :: "string list"
  current_index :: nat
  failed_proxies :: "string set"

definition ProxyManager_init :: "string list \<Rightarrow> ProxyManager" where
  "ProxyManager_init pl = \<lparr>proxy_list = pl, current_index = 0, failed_proxies = {}\<rparr>"

text \<open>
  \<open>get_next_proxy\<close> returns the proxy (or \<open>None\<close>) together with the manager after
  the call; \<open>r\<close> is the draw of \<open>random.choice\<close>.
\<close>

definition get_next_proxy :: "nat \<Rightarrow> ProxyManager \<Rightarrow> string option \<times> ProxyManager" where
  "get_next_proxy r pm =
     (if proxy_list pm = [] then (None, pm)
      else
        let available = filter (\<lambda>p. p \<notin> failed_proxies pm) (proxy_list pm) in
        if available = []
        then (Some (choice r (proxy_list pm)), pm\<lparr>failed_proxies := {}\<rparr>)
        else (Some (choice r available), pm))"

text \<open>\<open>mark_failed(proxy)\<close>: \<open>if proxy:\<close> skips \<open>None\<close> and the empty string.\<close>

definition mark_failed :: "string option \<Rightarrow> ProxyManager \<Rightarrow> ProxyManager" where
  "mark_failed proxy pm =
     (case proxy of
        None \<Rightarrow> pm
      | Some p \<Rightarrow>
          if p = [] then pm
          else pm\<lparr>failed_proxies := insert p (failed_proxies pm)\<rparr>)"

text \<open>\<open>get_chrome_proxy_arg\<close>: \<open>proxy.split(":")\<close> has two parts or more iff the
  proxy contains a colon; the argument is built from the first two parts.\<close>

fun split_on :: "char \<Rightarrow> string \<Rightarrow> string list" where
  "split_on d [] = [[]]"
| "split_on d (c # cs) =
     (if c = d then [] # split_on d cs
      else (case split_on d cs of
              [] \<Rightarrow> [[c]]
            | w # ws \<Rightarrow> (c # w) # ws))"

definition get_chrome_proxy_arg :: "string option \<Rightarrow> string option" where
  "get_chrome_proxy_arg proxy =
     (case proxy of
        None \<Rightarrow> None
      | Some p \<Rightarrow>
          if p = [] then None
          else (case split_on CHR '':'' p of
                  a # b # _ \<Rightarrow> Some (''--proxy-server='' @ a @ '':'' @ b)
                | _ \<Rightarrow> None))"

subsection \<open>Properties of the proxy pool\<close>

lemma choice_in_set: "xs \<noteq> [] \<Longrightarrow> choice r xs \<in> set xs"
  by (simp add: choice_def)

lemma filter_empty_subset:
  "(filter (\<lambda>p. p \<notin> F) xs = []) = (set xs \<subseteq> F)"
  by (induction xs) auto

text \<open>
  Claim C3. \<open>get_next_proxy\<close> returns \<open>None\<close> on an empty candidate list. Otherwise it
  returns a member of the candidate list; when every candidate is in the failure set the
  failure set is cleared, and when some candidate is not, the returned proxy is outside
  the failure set, which is left as it was. \<open>mark_failed\<close> only adds to the failure set
  and is idempotent. Neither operation changes the candidate list.
\<close>

theorem proxy_pool_selection:
  "(proxy_list pm = [] \<longrightarrow> fst (get_next_proxy r pm) = None)
   \<and> (proxy_list pm \<noteq> [] \<longrightarrow>
        (\<exists>p. fst (get_next_proxy r pm) = Some p \<and> p \<in> set (proxy_list pm)
           \<and> (if set (proxy_list pm) \<subseteq> failed_proxies pm
                then failed_proxies (snd (get_next_proxy r pm)) = {}
                else p \<notin> failed_proxies pm
                     \<and> failed_proxies (snd (get_next_proxy r pm)) = failed_proxies pm)))
   \<and> failed_proxies pm \<subseteq> failed_proxies (mark_failed x pm)
   \<and> mark_failed x (mark_failed x pm) = mark_failed x pm
   \<and> proxy_list (snd (get_next_proxy r pm)) = proxy_list pm
   \<and> proxy_list (mark_failed x pm) = proxy_list pm"
proof -
  let ?av = "filter (\<lambda>p. p \<notin> failed_proxies pm) (proxy_list pm)"
  have empty: "proxy_list pm = [] \<longrightarrow> fst (get_next_proxy r pm) = None"
    by (simp add: get_next_proxy_def)
  have pick: "proxy_list pm \<noteq> [] \<longrightarrow>
        (\<exists>p. fst (get_next_proxy r pm) = Some p \<and> p \<in> set (proxy_list pm)
           \<and> (if set (proxy_list pm) \<subseteq> failed_proxies pm
                then failed_proxies (snd (get_next_proxy r pm)) = {}
                else p \<notin> failed_proxies pm
                     \<and> failed_proxies (snd (get_next_proxy r pm)) = failed_proxies pm))"
  proof
    assume ne: "proxy_list pm \<noteq> []"
    show "\<exists>p. fst (get_next_proxy r pm) = Some p \<and> p \<in> set (proxy_list pm)
           \<and> (if set (proxy_list pm) \<subseteq> failed_proxies pm
                then failed_proxies (snd (get_next_proxy r pm)) = {}
                else p \<notin> failed_proxies pm
                     \<and> failed_proxies (snd (get_next_proxy r pm)) = failed_proxies pm)"
    proof (cases "?av = []")
      case True
      then have all: "set (proxy_list pm) \<subseteq> failed_proxies pm"
        by (simp add: filter_empty_subset)
      from True ne have "get_next_proxy r pm
          = (Some (choice r (proxy_list pm)), pm\<lparr>failed_proxies := {}\<rparr>)"
        by (simp add: get_next_proxy_def)
      with all ne show ?thesis
        by (simp add: choice_in_set)
    next
      case False
      then have some: "\<not> set (proxy_list pm) \<subseteq> failed_proxies pm"
        by (simp add: filter_empty_subset)
      from False ne have res: "get_next_proxy r pm = (Some (choice r ?av), pm)"
        by (simp add: get_next_proxy_def Let_def)
      from False have "choice r ?av \<in> set ?av"
        by (rule choice_in_set)
      then have "choice r ?av \<in> set (proxy_list pm)" "choice r ?av \<notin> failed_proxies pm"
        by simp_all
      with res some show ?thesis
        by simp
    qed
  qed
  have grows: "failed_proxies pm \<subseteq> failed_proxies (mark_failed x pm)"
    by (auto simp: mark_failed_def split: option.splits)
  have idem: "mark_failed x (mark_failed x pm) = mark_failed x pm"
    by (simp add: mark_failed_def split: option.splits)
  have keep1: "proxy_list (snd (get_next_proxy r pm)) = proxy_list pm"
    by (simp add: get_next_proxy_def Let_def)
  have keep2: "proxy_list (mark_failed x pm) = proxy_list pm"
    by (simp add: mark_failed_def split: option.splits)
  from empty pick grows idem keep1 keep2 show ?thesis
    by blast
qed

theorem proxy_pool_selection_witness:
  "proxy_list (mark_failed (Some ''10.0.0.1:8080'')
       (ProxyManager_init [''10.0.0.1:8080'', ''10.0.0.2:8080''])) \<noteq> []
   \<and> \<not> set (proxy_list (mark_failed (Some ''10.0.0.1:8080'')
          (ProxyManager_init [''10.0.0.1:8080'', ''10.0.0.2:8080'']))) \<subseteq> {''10.0.0.1:8080''}
   \<and> (\<exists>p. fst (get_next_proxy 5 (mark_failed (Some ''10.0.0.1:8080'')
          (ProxyManager_init [''10.0.0.1:8080'', ''10.0.0.2:8080'']))) = Some p
        \<and> p \<in> {''10.0.0.1:8080'', ''10.0.0.2:8080''} \<and> p \<notin> {''10.0.0.1:8080''})"
  using proxy_pool_selection [of "mark_failed (Some ''10.0.0.1:8080'')
          (ProxyManager_init [''10.0.0.1:8080'', ''10.0.0.2:8080''])" 5 None]
  by (auto simp: ProxyManager_init_def mark_failed_def)

section \<open>anti\_block.py: ThrottleManager\<close>

record ThrottleManager =
  min_delay :: real
  max_delay :: real
  burst_threshold :: int
  request_count :: int
  last_request_time :: real
  backoff_multiplier :: real

definition ThrottleManager_init :: "real \<Rightarrow> real \<Rightarrow> int \<Rightarrow> ThrottleManager" where
  "ThrottleManager_init mn mx bt =
     \<lparr>min_delay = mn, max_delay = mx, burst_threshold = bt, request_count = 0,
      last_request_time = 0, backoff_multiplier = 1.0\<rparr>"

text \<open>
  \<open>wait()\<close>. The inputs are what the call reads from outside: \<open>u\<close>, the draw in
  \<open>[0, 1]\<close> behind \<open>random.uniform\<close>, and the two readings \<open>now\<close> and \<open>now'\<close> of
  \<open>time.time()\<close>. The result is the time slept (or the exception raised) and the manager
  after the call. \<open>request_count % burst_threshold\<close> raises \<open>ZeroDivisionError\<close> for
  a zero threshold, after the counter has been incremented.
\<close>

definition wait :: "real \<Rightarrow> real \<Rightarrow> real \<Rightarrow> ThrottleManager
    \<Rightarrow> (py_exception + real) \<times> ThrottleManager" where
  "wait u now now' tm =
     (let tm1 = tm\<lparr>request_count := request_count tm + 1\<rparr> in
      if burst_threshold tm1 = 0 then (Inl ZeroDivisionError, tm1)
      else
        let tm2 = (if request_count tm1 mod burst_threshold tm1 = 0
                   then tm1\<lparr>backoff_multiplier := min (backoff_multiplier tm1 * 1.5) 3.0\<rparr>
                   else tm1);
            base_delay = min_delay tm2 + (max_delay tm2 - min_delay tm2) * u;
            actual_delay = base_delay * backoff_multiplier tm2;
            time_since_last = now - last_request_time tm2;
            sleep_time = (if time_since_last < actual_delay
                          then actual_delay - time_since_last else 0)
        in (Inr sleep_time, tm2\<lparr>last_request_time := now'\<rparr>))"

definition report_success :: "ThrottleManager \<Rightarrow> ThrottleManager" where
  "report_success tm =
     (if backoff_multiplier tm > 1.0
      then tm\<lparr>backoff_multiplier := max 1.0 (backoff_multiplier tm * 0.9)\<rparr>
      else tm)"

definition report_error :: "string \<Rightarrow> ThrottleManager \<Rightarrow> ThrottleManager" where
  "report_error error_type tm =
     (if error_type = ''rate_limit''
      then tm\<lparr>backoff_multiplier := min (backoff_multiplier tm * 2.0) 5.0\<rparr>
      else if error_type = ''block''
      then tm\<lparr>backoff_multiplier := min (backoff_multiplier tm * 3.0) 10.0\<rparr>
      else tm)"

definition reset :: "ThrottleManager \<Rightarrow> ThrottleManager" where
  "reset tm = tm\<lparr>request_count := 0, backoff_multiplier := 1.0\<rparr>"

text \<open>A sequence of calls on one manager; a call that raises leaves the manager as
  the exception found it, and the next call goes on from there.\<close>

datatype throttle_call =
  Wait real real real
  | ReportSuccess
  | ReportError string

fun throttle_step :: "throttle_call \<Rightarrow> ThrottleManager \<Rightarrow> ThrottleManager" where
  "throttle_step (Wait u now now') tm = snd (wait u now now' tm)"
| "throttle_step ReportSuccess tm = report_success tm"
| "throttle_step (ReportError k) tm = report_error k tm"

fun throttle_run :: "throttle_call list \<Rightarrow> ThrottleManager \<Rightarrow> ThrottleManager" where
  "throttle_run [] tm = tm"
| "throttle_run (c # cs) tm = throttle_run cs (throttle_step c tm)"

subsection \<open>The backoff multiplier stays within its bounds\<close>

definition multiplier_ok :: "ThrottleManager \<Rightarrow> bool" where
  "multiplier_ok tm = (1 \<le> backoff_multiplier tm \<and> backoff_multiplier tm \<le> 10)"

lemma wait_multiplier:
  "backoff_multiplier (snd (wait u now now' tm)) =
     (if burst_threshold tm \<noteq> 0 \<and> (request_count tm + 1) mod burst_threshold tm = 0
      then min (backoff_multiplier tm * 1.5) 3.0
      else backoff_multiplier tm)"
  by (simp add: wait_def Let_def)

lemma wait_ok: "multiplier_ok tm \<Longrightarrow> multiplier_ok (snd (wait u now now' tm))"
  unfolding multiplier_ok_def wait_multiplier by (simp add: min_def)

lemma report_success_ok: "multiplier_ok tm \<Longrightarrow> multiplier_ok (report_success tm)"
  by (simp add: multiplier_ok_def report_success_def max_def)

lemma report_error_ok: "multiplier_ok tm \<Longrightarrow> multiplier_ok (report_error k tm)"
  by (simp add: multiplier_ok_def report_error_def min_def)

lemma throttle_step_ok: "multiplier_ok tm \<Longrightarrow> multiplier_ok (throttle_step c tm)"
  by (cases c) (simp_all add: wait_ok report_success_ok report_error_ok)

lemma throttle_run_ok: "multiplier_ok tm \<Longrightarrow> multiplier_ok (throttle_run cs tm)"
  by (induction cs arbitrary: tm) (simp_all add: throttle_step_ok)

lemma init_ok: "multiplier_ok (ThrottleManager_init mn mx bt)"
  by (simp add: multiplier_ok_def ThrottleManager_init_def)

text \<open>
  Claim C4. After any sequence of \<open>wait\<close>, \<open>report_success\<close> and \<open>report_error\<close>
  calls on a fresh manager the multiplier lies between 1 and 10. A \<open>wait\<close> whose
  incremented call count is a multiple of the (non-zero) burst threshold sets it to
  \<open>min (m * 1.5) 3\<close>; \<open>report_success\<close> sets it to \<open>max 1 (m * 0.9)\<close> when it is
  above 1, which is strictly smaller, and leaves it otherwise; \<open>report_error\<close> sets it
  to \<open>min (m * 2) 5\<close> for \<open>rate_limit\<close>, to \<open>min (m * 3) 10\<close> for \<open>block\<close> and leaves
  it unchanged for \<open>generic\<close>.
\<close>

theorem throttle_multiplier_bounds:
  "1 \<le> backoff_multiplier (throttle_run cs (ThrottleManager_init mn mx bt))
   \<and> backoff_multiplier (throttle_run cs (ThrottleManager_init mn mx bt)) \<le> 10
   \<and> (burst_threshold tm \<noteq> 0 \<and> (request_count tm + 1) mod burst_threshold tm = 0 \<longrightarrow>
        backoff_multiplier (snd (wait u now now' tm)) = min (backoff_multiplier tm * 1.5) 3.0)
   \<and> backoff_multiplier (report_success tm) =
        (if backoff_multiplier tm > 1 then max 1 (backoff_multiplier tm * 0.9)
         else backoff_multiplier tm)
   \<and> (1 \<le> backoff_multiplier tm \<longrightarrow> 1 \<le> backoff_multiplier (report_success tm))
   \<and> (1 < backoff_multiplier tm \<longrightarrow>
        backoff_multiplier (report_success tm) < backoff_multiplier tm)
   \<and> backoff_multiplier (report_error ''rate_limit'' tm) = min (backoff_multiplier tm * 2.0) 5.0
   \<and> backoff_multiplier (report_error ''block'' tm) = min (backoff_multiplier tm * 3.0) 10.0
   \<and> backoff_multiplier (report_error ''generic'' tm) = backoff_multiplier tm"
proof -
  have inv: "multiplier_ok (throttle_run cs (ThrottleManager_init mn mx bt))"
    by (rule throttle_run_ok [OF init_ok])
  have w: "burst_threshold tm \<noteq> 0 \<and> (request_count tm + 1) mod burst_threshold tm = 0 \<longrightarrow>
        backoff_multiplier (snd (wait u now now' tm)) = min (backoff_multiplier tm * 1.5) 3.0"
    by (simp add: wait_multiplier)
  have s1: "backoff_multiplier (report_success tm) =
        (if backoff_multiplier tm > 1 then max 1 (backoff_multiplier tm * 0.9)
         else backoff_multiplier tm)"
    by (simp add: report_success_def)
  have s2: "1 \<le> backoff_multiplier tm \<longrightarrow> 1 \<le> backoff_multiplier (report_success tm)"
    by (simp add: report_success_def)
  have s3: "1 < backoff_multiplier tm \<longrightarrow>
        backoff_multiplier (report_success tm) < backoff_multiplier tm"
    by (simp add: report_success_def max_def)
  have e1: "backoff_multiplier (report_error ''rate_limit'' tm) = min (backoff_multiplier tm * 2.0) 5.0"
    by (simp add: report_error_def)
  have e2: "backoff_multiplier (report_error ''block'' tm) = min (backoff_multiplier tm * 3.0) 10.0"
    by (simp add: report_error_def)
  have e3: "backoff_multiplier (report_error ''generic'' tm) = backoff_multiplier tm"
    by (simp add: report_error_def)
  from inv w s1 s2 s3 e1 e2 e3 show ?thesis
    unfolding multiplier_ok_def by blast
qed

theorem throttle_multiplier_bounds_witness:
  "burst_threshold ((ThrottleManager_init 2 5 10)\<lparr>request_count := 9\<rparr>) \<noteq> 0
   \<and> (request_count ((ThrottleManager_init 2 5 10)\<lparr>request_count := 9\<rparr>) + 1)
        mod burst_threshold ((ThrottleManager_init 2 5 10)\<lparr>request_count := 9\<rparr>) = 0
   \<and> backoff_multiplier
        (snd (wait 0 0 0 ((ThrottleManager_init 2 5 10)\<lparr>request_count := 9\<rparr>))) = 1.5
   \<and> 1 < backoff_multiplier ((ThrottleManager_init 2 5 10)\<lparr>backoff_multiplier := 2\<rparr>)
   \<and> backoff_multiplier
        (report_success ((ThrottleManager_init 2 5 10)\<lparr>backoff_multiplier := 2\<rparr>)) < 2"
  using throttle_multiplier_bounds
      [where tm = "(ThrottleManager_init 2 5 10)\<lparr>request_count := 9\<rparr>"
         and u = 0 and now = 0 and now' = 0]
    throttle_multiplier_bounds
      [where tm = "(ThrottleManager_init 2 5 10)\<lparr>backoff_multiplier := 2\<rparr>"]
  by (simp add: ThrottleManager_init_def)

section \<open>anti\_block.py: CaptchaDetector and BlockDetector\<close>

text \<open>
  What the detectors read from the driver: the current URL, the title, the page source,
  and, for an XPath, whether \<open>find_elements\<close> returns a list with a displayed element
  (a lookup that raises counts as no element, as the \<open>except: pass\<close> makes it).
  \<open>len\<close> counts the characters of the source.
\<close>

record driver_state =
  current_url :: string
  title :: string
  page_source :: string
  displayed_by_xpath :: "string \<Rightarrow> bool"

definition CAPTCHA_XPATHS :: "string list" where
  "CAPTCHA_XPATHS =
     [''//img[contains(@src, 'captcha')]'',
      ''//form[contains(@action, 'captcha')]'',
      ''//*[contains(@id, 'captcha')]'',
      ''//iframe[contains(@src, 'recaptcha')]'',
      ''//div[contains(@class, 'g-recaptcha')]'',
      ''//div[@id='px-captcha']'',
      ''//input[@id='captchacharacters']'',
      ''//div[@class='a-box-inner a-padding-extra-large']//img'']"

definition STRONG_INDICATORS :: "string list" where
  "STRONG_INDICATORS =
     [''enter the characters you see below'',
      ''type the characters you see in this image'',
      ''sorry, we just need to make sure you're not a robot'',
      ''to continue, please type the characters below'',
      ''please enable cookies to continue'',
      ''access to this page has been denied'']"

definition CAPTCHA_URL_PATTERNS :: "string list" where
  "CAPTCHA_URL_PATTERNS =
     [''/captcha/'', ''/validatecaptcha'', ''/errors/validatecaptcha'', ''captcha'']"

definition BLOCK_INDICATORS :: "string list" where
  "BLOCK_INDICATORS =
     [''access denied'', ''blocked'', ''forbidden'', ''banned'', ''too many requests'',
      ''rate limit'', ''service unavailable'', ''please try again later'',
      ''automated access'', ''suspicious activity'']"

text \<open>\<open>CaptchaDetector.is_captcha_present\<close>: a pair \<open>(is_captcha, captcha_type)\<close>.\<close>

definition is_captcha_present :: "driver_state \<Rightarrow> bool \<times> string option" where
  "is_captcha_present driver =
     (let url = lower (current_url driver) in
      if list_ex (\<lambda>pattern. str_in pattern url) CAPTCHA_URL_PATTERNS
      then (True, Some ''url'')
      else
        let t = lower (title driver) in
        if str_in ''robot'' t \<or> str_in ''captcha'' t then (True, Some ''title'')
        else if list_ex (\<lambda>xpath. displayed_by_xpath driver xpath) CAPTCHA_XPATHS
        then (True, Some ''element'')
        else
          let source = lower (page_source driver) in
          if list_ex (\<lambda>indicator. str_in indicator source) STRONG_INDICATORS
          then (True, Some ''text_pattern'')
          else if length source < 10000
                  \<and> (str_in ''captcha'' source \<or> str_in ''robot check'' source)
          then (True, Some ''small_page'')
          else (False, None))"

text \<open>\<open>CaptchaDetector._silent_captcha_check\<close>: the same checks, without printing.\<close>

definition silent_captcha_check :: "driver_state \<Rightarrow> bool" where
  "silent_captcha_check driver =
     (let url = lower (current_url driver) in
      if list_ex (\<lambda>pattern. str_in pattern url) CAPTCHA_URL_PATTERNS then True
      else
        let t = lower (title driver) in
        if str_in ''robot'' t \<or> str_in ''captcha'' t then True
        else if list_ex (\<lambda>xpath. displayed_by_xpath driver xpath) CAPTCHA_XPATHS then True
        else
          let source = lower (page_source driver) in
          if list_ex (\<lambda>indicator. str_in indicator source) STRONG_INDICATORS then True
          else if length source < 10000
                  \<and> (str_in ''captcha'' source \<or> str_in ''robot check'' source)
          then True
          else False)"

text \<open>\<open>BlockDetector.is_blocked\<close>: a pair \<open>(is_blocked, block_reason)\<close>; each loop
  returns at its first matching indicator.\<close>

definition is_blocked :: "driver_state \<Rightarrow> bool \<times> string option" where
  "is_blocked driver =
     (let source = lower (page_source driver);
          t = lower (title driver) in
      case find (\<lambda>indicator. str_in indicator t) BLOCK_INDICATORS of
        Some indicator \<Rightarrow> (True, Some (''Title contains: '' @ indicator))
      | None \<Rightarrow>
          let content_sample = take 5000 source in
          (case find (\<lambda>indicator. str_in indicator content_sample) BLOCK_INDICATORS of
             Some indicator \<Rightarrow> (True, Some (''Page contains: '' @ indicator))
           | None \<Rightarrow>
               if length source < 1000 then (True, Some ''Page suspiciously small'')
               else (False, None)))"

text \<open>
  The classification that \<open>navigate_with_protection\<close> makes of the page it has loaded
  (anti\_block.py, lines 575 to 594): \<open>BlockDetector.is_blocked\<close> is asked first, and
  \<open>CaptchaDetector.is_captcha_present\<close> only when it says no. The other callers do not
  make this sequence: \<open>scroll_and_find_element\<close> in amazon.py asks the two detectors
  on separate schedules, and the check after a click asks \<open>is_captcha_present\<close> alone.
\<close>

datatype classification = Clean | Blocked string | Captcha string

definition page_verdict :: "driver_state \<Rightarrow> classification" where
  "page_verdict driver =
     (case is_blocked driver of
        (True, reason) \<Rightarrow> Blocked (case reason of Some r \<Rightarrow> r | None \<Rightarrow> [])
      | (False, _) \<Rightarrow>
          (case is_captcha_present driver of
             (True, kind) \<Rightarrow> Captcha (case kind of Some k \<Rightarrow> k | None \<Rightarrow> [])
           | (False, _) \<Rightarrow> Clean))"

section \<open>scraper/detection.py\<close>

definition CAPTCHA_INDICATORS :: "string list" where
  "CAPTCHA_INDICATORS =
     [''enter the characters you see below'',
      ''type the characters you see'',
      ''sorry, we just need to make sure you're not a robot'']"

text \<open>\<open>check_for_blocks\<close>; reading the page source does not raise in this model.\<close>

definition check_for_blocks :: "driver_state \<Rightarrow> bool \<times> string option" where
  "check_for_blocks driver =
     (let url = lower (current_url driver) in
      if str_in ''/ap/signin'' url \<or> str_in ''/ap/register'' url
      then (True, Some ''Login redirect detected'')
      else if str_in ''captcha'' url then (True, Some ''CAPTCHA URL detected'')
      else
        let source = lower (page_source driver) in
        case find (\<lambda>indicator. str_in indicator source) CAPTCHA_INDICATORS of
          Some indicator \<Rightarrow> (True, Some (''CAPTCHA detected: '' @ indicator))
        | None \<Rightarrow>
            if length source < 5000
            then (True, Some (''Page suspiciously small: '' @ str_nat (length source)
                              @ '' bytes''))
            else (False, None))"

section \<open>The order of the checks\<close>

text \<open>The conditions of the individual checks, named as the specification names them.\<close>

definition block_phrase_in :: "string \<Rightarrow> bool" where
  "block_phrase_in s = (\<exists>indicator \<in> set BLOCK_INDICATORS. str_in indicator s)"

definition first_block_phrase :: "string \<Rightarrow> string" where
  "first_block_phrase s =
     (case find (\<lambda>indicator. str_in indicator s) BLOCK_INDICATORS of
        Some indicator \<Rightarrow> indicator
      | None \<Rightarrow> [])"

definition captcha_url :: "driver_state \<Rightarrow> bool" where
  "captcha_url d =
     (\<exists>pattern \<in> set CAPTCHA_URL_PATTERNS. str_in pattern (lower (current_url d)))"

definition captcha_title :: "driver_state \<Rightarrow> bool" where
  "captcha_title d =
     (str_in ''robot'' (lower (title d)) \<or> str_in ''captcha'' (lower (title d)))"

definition captcha_element :: "driver_state \<Rightarrow> bool" where
  "captcha_element d = (\<exists>xpath \<in> set CAPTCHA_XPATHS. displayed_by_xpath d xpath)"

definition captcha_text :: "driver_state \<Rightarrow> bool" where
  "captcha_text d =
     (\<exists>indicator \<in> set STRONG_INDICATORS. str_in indicator (lower (page_source d)))"

definition captcha_small_page :: "driver_state \<Rightarrow> bool" where
  "captcha_small_page d =
     (length (lower (page_source d)) < 10000
      \<and> (str_in ''captcha'' (lower (page_source d))
           \<or> str_in ''robot check'' (lower (page_source d))))"

text \<open>
  The order of section 4.4 of the specification, written from its words: the five
  captcha checks, then the block phrases (the reason being the matched phrase), then the
  small page.
\<close>

definition classify_spec :: "driver_state \<Rightarrow> classification" where
  "classify_spec d =
     (if captcha_url d then Captcha ''url''
      else if captcha_title d then Captcha ''title''
      else if captcha_element d then Captcha ''element''
      else if captcha_text d then Captcha ''text_pattern''
      else if captcha_small_page d then Captcha ''small_page''
      else if block_phrase_in (lower (title d))
      then Blocked (first_block_phrase (lower (title d)))
      else if block_phrase_in (take 5000 (lower (page_source d)))
      then Blocked (first_block_phrase (take 5000 (lower (page_source d))))
      else if length (page_source d) < 1000 then Blocked ''suspiciously small''
      else Clean)"

text \<open>The conditions of \<open>check_for_blocks\<close>.\<close>

definition login_redirect_url :: "driver_state \<Rightarrow> bool" where
  "login_redirect_url d =
     (str_in ''/ap/signin'' (lower (current_url d))
      \<or> str_in ''/ap/register'' (lower (current_url d)))"

definition captcha_indicator_in :: "string \<Rightarrow> bool" where
  "captcha_indicator_in s = (\<exists>indicator \<in> set CAPTCHA_INDICATORS. str_in indicator s)"

subsection \<open>Facts about strings\<close>

lemma lower_replicate: "lower (replicate n c) = replicate n (lower_char c)"
  by (simp add: lower_def)

lemma lower_char_x: "lower_char CHR ''x'' = CHR ''x''"
  by code_simp

lemma startswith_set: "startswith s p \<Longrightarrow> set p \<subseteq> set s"
  by (induction s p rule: startswith.induct) auto

lemma str_in_set: "str_in p s \<Longrightarrow> set p \<subseteq> set s"
proof (induction s)
  case Nil
  then show ?case by simp
next
  case (Cons a s)
  from Cons.prems have "startswith (a # s) p \<or> str_in p s"
    by simp
  then show ?case
  proof
    assume "startswith (a # s) p"
    then show ?thesis by (rule startswith_set)
  next
    assume "str_in p s"
    then have "set p \<subseteq> set s" by (rule Cons.IH)
    then show ?thesis by auto
  qed
qed

lemma str_in_replicate:
  assumes "\<not> set p \<subseteq> {c}"
  shows "\<not> str_in p (replicate n c)"
proof
  assume "str_in p (replicate n c)"
  then have "set p \<subseteq> set (replicate n c)"
    by (rule str_in_set)
  moreover have "set (replicate n c) \<subseteq> {c}"
    by auto
  ultimately show False
    using assms by blast
qed

subsection \<open>The detectors as chains of conditions\<close>

lemma find_block_phrase:
  "find (\<lambda>indicator. str_in indicator s) BLOCK_INDICATORS =
     (if block_phrase_in s then Some (first_block_phrase s) else None)"
proof (cases "find (\<lambda>indicator. str_in indicator s) BLOCK_INDICATORS")
  case None
  then show ?thesis
    by (simp add: block_phrase_in_def find_None_iff)
next
  case (Some i)
  then have "i \<in> set BLOCK_INDICATORS" "str_in i s"
    by (auto simp: find_Some_iff)
  then have "block_phrase_in s"
    unfolding block_phrase_in_def by blast
  with Some show ?thesis
    by (simp add: first_block_phrase_def)
qed

lemma is_blocked_cases:
  "is_blocked d =
     (if block_phrase_in (lower (title d))
      then (True, Some (''Title contains: '' @ first_block_phrase (lower (title d))))
      else if block_phrase_in (take 5000 (lower (page_source d)))
      then (True, Some (''Page contains: ''
                         @ first_block_phrase (take 5000 (lower (page_source d)))))
      else if length (lower (page_source d)) < 1000
      then (True, Some ''Page suspiciously small'')
      else (False, None))"
  by (simp add: is_blocked_def Let_def find_block_phrase)

lemma is_captcha_present_cases:
  "is_captcha_present d =
     (if captcha_url d then (True, Some ''url'')
      else if captcha_title d then (True, Some ''title'')
      else if captcha_element d then (True, Some ''element'')
      else if captcha_text d then (True, Some ''text_pattern'')
      else if captcha_small_page d then (True, Some ''small_page'')
      else (False, None))"
  by (simp add: is_captcha_present_def captcha_url_def captcha_title_def captcha_element_def
      captcha_text_def captcha_small_page_def Let_def list_ex_iff)

lemma silent_captcha_check_eq: "silent_captcha_check d = fst (is_captcha_present d)"
  by (auto simp: silent_captcha_check_def is_captcha_present_def Let_def)

lemma check_for_blocks_cases:
  "check_for_blocks d =
     (if login_redirect_url d then (True, Some ''Login redirect detected'')
      else if str_in ''captcha'' (lower (current_url d))
      then (True, Some ''CAPTCHA URL detected'')
      else (case find (\<lambda>indicator. str_in indicator (lower (page_source d)))
                   CAPTCHA_INDICATORS of
              Some indicator \<Rightarrow> (True, Some (''CAPTCHA detected: '' @ indicator))
            | None \<Rightarrow>
                if length (lower (page_source d)) < 5000
                then (True, Some (''Page suspiciously small: ''
                                  @ str_nat (length (lower (page_source d))) @ '' bytes''))
                else (False, None)))"
  by (simp add: check_for_blocks_def login_redirect_url_def Let_def
      split: option.splits)

subsection \<open>Evaluation on sample pages\<close>

lemma product_url_no_captcha:
  "\<not> (\<exists>pattern \<in> set CAPTCHA_URL_PATTERNS.
         str_in pattern (lower ''https://www.amazon.in/dp/B000000000''))
   \<and> \<not> str_in ''captcha'' (lower ''https://www.amazon.in/dp/B000000000'')
   \<and> \<not> str_in ''/ap/signin'' (lower ''https://www.amazon.in/dp/B000000000'')
   \<and> \<not> str_in ''/ap/register'' (lower ''https://www.amazon.in/dp/B000000000'')"
  by code_simp

lemma captcha_url_matches:
  "\<exists>pattern \<in> set CAPTCHA_URL_PATTERNS.
      str_in pattern (lower ''https://www.amazon.in/errors/validateCaptcha'')"
  by code_simp

lemma product_title_plain:
  "\<not> block_phrase_in (lower ''Product'') \<and> \<not> str_in ''robot'' (lower ''Product'')
   \<and> \<not> str_in ''captcha'' (lower ''Product'')"
  by code_simp

lemma denied_title_blocked:
  "block_phrase_in (lower ''Access Denied'')
   \<and> first_block_phrase (lower ''Access Denied'') = ''access denied''"
  by code_simp

lemma block_phrase_in_replicate_x: "\<not> block_phrase_in (replicate n CHR ''x'')"
  by (simp add: block_phrase_in_def BLOCK_INDICATORS_def str_in_replicate)

lemma strong_indicator_replicate_x:
  "\<not> (\<exists>indicator \<in> set STRONG_INDICATORS. str_in indicator (replicate n CHR ''x''))"
  by (simp add: STRONG_INDICATORS_def str_in_replicate)

lemma captcha_indicator_replicate_x: "\<not> captcha_indicator_in (replicate n CHR ''x'')"
  by (simp add: captcha_indicator_in_def CAPTCHA_INDICATORS_def str_in_replicate)

lemma find_captcha_indicator_replicate_x:
  "find (\<lambda>indicator. str_in indicator (replicate n CHR ''x'')) CAPTCHA_INDICATORS = None"
  using captcha_indicator_replicate_x [of n]
  by (simp add: find_None_iff captcha_indicator_in_def)

text \<open>A product page whose source is \<open>n\<close> times the letter x: no check but the size
  checks can match it.\<close>

definition plain_page :: "nat \<Rightarrow> driver_state" where
  "plain_page n =
     \<lparr>current_url = ''https://www.amazon.in/dp/B000000000'', title = ''Product'',
      page_source = replicate n CHR ''x'', displayed_by_xpath = (\<lambda>_. False)\<rparr>"

lemma plain_page_free:
  "\<not> captcha_url (plain_page n) \<and> \<not> captcha_title (plain_page n)
   \<and> \<not> captcha_element (plain_page n) \<and> \<not> captcha_text (plain_page n)
   \<and> \<not> captcha_small_page (plain_page n)
   \<and> \<not> block_phrase_in (lower (title (plain_page n)))
   \<and> \<not> block_phrase_in (take 5000 (lower (page_source (plain_page n))))
   \<and> \<not> login_redirect_url (plain_page n)
   \<and> \<not> str_in ''captcha'' (lower (current_url (plain_page n)))
   \<and> \<not> captcha_indicator_in (lower (page_source (plain_page n)))"
  using product_url_no_captcha product_title_plain
  by (simp add: plain_page_def lower_replicate lower_char_x block_phrase_in_replicate_x
      strong_indicator_replicate_x captcha_indicator_replicate_x captcha_url_def
      captcha_title_def captcha_element_def captcha_text_def captcha_small_page_def
      login_redirect_url_def str_in_replicate)

lemma str_nat_3000: "str_nat 3000 = ''3000''"
  by code_simp

lemma length_plain_page: "length (lower (page_source (plain_page n))) = n"
  by (simp add: plain_page_def lower_replicate)

lemma check_for_blocks_plain_page:
  "check_for_blocks (plain_page n) =
     (if n < 5000
      then (True, Some (''Page suspiciously small: '' @ str_nat n @ '' bytes''))
      else (False, None))"
proof -
  have "find (\<lambda>indicator. str_in indicator (lower (page_source (plain_page n))))
          CAPTCHA_INDICATORS = None"
    using find_captcha_indicator_replicate_x [of n]
    by (simp add: plain_page_def lower_replicate lower_char_x)
  with plain_page_free [of n] show ?thesis
    by (simp add: check_for_blocks_cases length_plain_page)
qed

text \<open>A page at a captcha URL whose title says "Access Denied".\<close>

definition denied_captcha_page :: driver_state where
  "denied_captcha_page =
     \<lparr>current_url = ''https://www.amazon.in/errors/validateCaptcha'',
      title = ''Access Denied'', page_source = ''<html></html>'',
      displayed_by_xpath = (\<lambda>_. False)\<rparr>"

text \<open>A page at a captcha URL with a plain title and a source of \<open>n\<close> letters x.\<close>

definition captcha_url_page :: "nat \<Rightarrow> driver_state" where
  "captcha_url_page n =
     \<lparr>current_url = ''https://www.amazon.in/errors/validateCaptcha'',
      title = ''Product'', page_source = replicate n CHR ''x'',
      displayed_by_xpath = (\<lambda>_. False)\<rparr>"

lemma captcha_url_page_facts:
  "captcha_url (captcha_url_page n)
   \<and> \<not> block_phrase_in (lower (title (captcha_url_page n)))
   \<and> \<not> block_phrase_in (take 5000 (lower (page_source (captcha_url_page n))))
   \<and> length (lower (page_source (captcha_url_page n))) = n"
  using captcha_url_matches product_title_plain
  by (simp add: captcha_url_page_def captcha_url_def lower_replicate lower_char_x
      block_phrase_in_replicate_x)

section \<open>Claims about the classification\<close>

text \<open>
  Claim C2, as stated, at a concrete page: the URL contains a captcha path and the title
  a block phrase. The order of section 4.4 gives captcha("url");
  \<open>navigate_with_protection\<close>, which the claim cites, classifies the page as blocked,
  because it asks \<open>is_blocked\<close> before \<open>is_captcha_present\<close>.
\<close>

theorem captcha_url_block_title_counterexample:
  "captcha_url denied_captcha_page
   \<and> block_phrase_in (lower (title denied_captcha_page))
   \<and> classify_spec denied_captcha_page = Captcha ''url''
   \<and> page_verdict denied_captcha_page = Blocked ''Title contains: access denied''"
  using captcha_url_matches denied_title_blocked
  by (simp add: denied_captcha_page_def captcha_url_def classify_spec_def page_verdict_def
      is_blocked_cases)

text \<open>
  Claim C2, amended. \<open>CaptchaDetector.is_captcha_present\<close>, asked on its own, takes the
  first match of the five captcha checks in the order of the claim: URL, title,
  displayed element, strong phrase in the lowered source, small page (lowered source
  shorter than 10000 characters) with captcha content. The classification that
  \<open>navigate_with_protection\<close> makes of the page it has loaded asks
  \<open>BlockDetector.is_blocked\<close> before it: the first match in the order block phrase in
  the lowered title, block phrase in the first 5000 characters of the lowered source,
  lowered source shorter than 1000 characters gives blocked, and only a page that
  matches none of the three goes through the captcha checks. A page that matches nothing
  is clean.
\<close>

theorem page_verdict_priority:
  "is_captcha_present d =
     (if captcha_url d then (True, Some ''url'')
      else if captcha_title d then (True, Some ''title'')
      else if captcha_element d then (True, Some ''element'')
      else if captcha_text d then (True, Some ''text_pattern'')
      else if captcha_small_page d then (True, Some ''small_page'')
      else (False, None))
   \<and> page_verdict d =
     (if block_phrase_in (lower (title d))
      then Blocked (''Title contains: '' @ first_block_phrase (lower (title d)))
      else if block_phrase_in (take 5000 (lower (page_source d)))
      then Blocked (''Page contains: ''
                     @ first_block_phrase (take 5000 (lower (page_source d))))
      else if length (lower (page_source d)) < 1000 then Blocked ''Page suspiciously small''
      else if captcha_url d then Captcha ''url''
      else if captcha_title d then Captcha ''title''
      else if captcha_element d then Captcha ''element''
      else if captcha_text d then Captcha ''text_pattern''
      else if captcha_small_page d then Captcha ''small_page''
      else Clean)"
  by (simp add: page_verdict_def is_blocked_cases is_captcha_present_cases)

theorem page_verdict_priority_witness:
  "\<not> block_phrase_in (lower (title (captcha_url_page 1000)))
   \<and> \<not> block_phrase_in (take 5000 (lower (page_source (captcha_url_page 1000))))
   \<and> \<not> length (lower (page_source (captcha_url_page 1000))) < 1000
   \<and> captcha_url (captcha_url_page 1000)
   \<and> page_verdict (captcha_url_page 1000) = Captcha ''url''
   \<and> captcha_url denied_captcha_page
   \<and> is_captcha_present denied_captcha_page = (True, Some ''url'')"
proof -
  from captcha_url_page_facts [of 1000]
  have 1: "\<not> block_phrase_in (lower (title (captcha_url_page 1000)))"
    and 2: "\<not> block_phrase_in (take 5000 (lower (page_source (captcha_url_page 1000))))"
    and 4: "captcha_url (captcha_url_page 1000)"
    by blast+
  from captcha_url_page_facts [of 1000]
  have "length (lower (page_source (captcha_url_page 1000))) = 1000"
    by blast
  then have 3: "\<not> length (lower (page_source (captcha_url_page 1000))) < 1000"
    by simp
  have 5: "captcha_url denied_captcha_page"
    using captcha_url_matches by (simp add: denied_captcha_page_def captcha_url_def)
  from page_verdict_priority [of "captcha_url_page 1000"]
  have "page_verdict (captcha_url_page 1000) = Captcha ''url''"
    by (simp only: 1 2 3 4 if_False if_True)
  moreover from page_verdict_priority [of denied_captcha_page]
  have "is_captcha_present denied_captcha_page = (True, Some ''url'')"
    by (simp only: 5 if_True)
  ultimately show ?thesis
    using 1 2 3 4 5 by blast
qed

text \<open>
  Claim C9, as stated, at a concrete page: a page of 3000 characters that matches no
  indicator is reported as blocked by \<open>check_for_blocks\<close>, whose size threshold is
  5000.
\<close>

theorem check_for_blocks_3000_counterexample:
  "length (lower (page_source (plain_page 3000))) = 3000
   \<and> \<not> captcha_url (plain_page 3000) \<and> \<not> captcha_title (plain_page 3000)
   \<and> \<not> captcha_element (plain_page 3000) \<and> \<not> captcha_text (plain_page 3000)
   \<and> \<not> captcha_small_page (plain_page 3000)
   \<and> \<not> block_phrase_in (lower (title (plain_page 3000)))
   \<and> \<not> block_phrase_in (take 5000 (lower (page_source (plain_page 3000))))
   \<and> check_for_blocks (plain_page 3000)
       = (True, Some ''Page suspiciously small: 3000 bytes'')"
  using plain_page_free [of 3000] check_for_blocks_plain_page [of 3000]
  by (simp add: length_plain_page str_nat_3000)

text \<open>
  Claim C9, amended. The size that the code measures is the number of characters of the
  lowered source, \<open>len(page_source.lower())\<close>. For a page that matches no captcha
  indicator and no block phrase, the classification made by \<open>is_blocked\<close> and
  \<open>is_captcha_present\<close> is blocked ("Page suspiciously small") exactly when the lowered
  source is shorter than 1000 characters, and clean otherwise. \<open>check_for_blocks\<close>,
  which the pagination engine uses, reports a page that is no login redirect and has no
  captcha URL or captcha phrase as blocked exactly when its lowered source is shorter
  than 5000 characters, and gives that length in the reason.
\<close>

theorem small_page_thresholds:
  "(\<not> captcha_url d \<and> \<not> captcha_title d \<and> \<not> captcha_element d \<and> \<not> captcha_text d
      \<and> \<not> captcha_small_page d \<and> \<not> block_phrase_in (lower (title d))
      \<and> \<not> block_phrase_in (take 5000 (lower (page_source d)))
    \<longrightarrow> page_verdict d =
          (if length (lower (page_source d)) < 1000 then Blocked ''Page suspiciously small''
           else Clean))
   \<and> (\<not> login_redirect_url d \<and> \<not> str_in ''captcha'' (lower (current_url d))
      \<and> \<not> captcha_indicator_in (lower (page_source d))
    \<longrightarrow> check_for_blocks d =
          (if length (lower (page_source d)) < 5000
           then (True, Some (''Page suspiciously small: ''
                             @ str_nat (length (lower (page_source d))) @ '' bytes''))
           else (False, None)))"
proof -
  have a: "\<not> captcha_url d \<and> \<not> captcha_title d \<and> \<not> captcha_element d \<and> \<not> captcha_text d
      \<and> \<not> captcha_small_page d \<and> \<not> block_phrase_in (lower (title d))
      \<and> \<not> block_phrase_in (take 5000 (lower (page_source d)))
    \<longrightarrow> page_verdict d =
          (if length (lower (page_source d)) < 1000 then Blocked ''Page suspiciously small''
           else Clean)"
    by (simp add: page_verdict_def is_blocked_cases is_captcha_present_cases)
  have b: "\<not> login_redirect_url d \<and> \<not> str_in ''captcha'' (lower (current_url d))
      \<and> \<not> captcha_indicator_in (lower (page_source d))
    \<longrightarrow> check_for_blocks d =
          (if length (lower (page_source d)) < 5000
           then (True, Some (''Page suspiciously small: ''
                             @ str_nat (length (lower (page_source d))) @ '' bytes''))
           else (False, None))"
  proof
    assume h: "\<not> login_redirect_url d \<and> \<not> str_in ''captcha'' (lower (current_url d))
      \<and> \<not> captcha_indicator_in (lower (page_source d))"
    then have "find (\<lambda>indicator. str_in indicator (lower (page_source d)))
                 CAPTCHA_INDICATORS = None"
      by (simp add: find_None_iff captcha_indicator_in_def)
    with h show "check_for_blocks d =
          (if length (lower (page_source d)) < 5000
           then (True, Some (''Page suspiciously small: ''
                             @ str_nat (length (lower (page_source d))) @ '' bytes''))
           else (False, None))"
      by (simp add: check_for_blocks_cases)
  qed
  from a b show ?thesis
    by blast
qed

theorem small_page_thresholds_witness:
  "\<not> captcha_url (plain_page 3000) \<and> \<not> captcha_title (plain_page 3000)
   \<and> \<not> captcha_element (plain_page 3000) \<and> \<not> captcha_text (plain_page 3000)
   \<and> \<not> captcha_small_page (plain_page 3000)
   \<and> \<not> block_phrase_in (lower (title (plain_page 3000)))
   \<and> \<not> block_phrase_in (take 5000 (lower (page_source (plain_page 3000))))
   \<and> \<not> login_redirect_url (plain_page 3000)
   \<and> \<not> str_in ''captcha'' (lower (current_url (plain_page 3000)))
   \<and> \<not> captcha_indicator_in (lower (page_source (plain_page 3000)))
   \<and> page_verdict (plain_page 3000) = Clean
   \<and> fst (check_for_blocks (plain_page 3000))"
  using small_page_thresholds [of "plain_page 3000"] plain_page_free [of 3000]
  by (simp add: length_plain_page)

section \<open>anti\_block.py: ProtectedScraper\<close>

text \<open>
  \<open>wait_for_manual_solve(driver, timeout)\<close> polls the silent check every three seconds.
  \<open>poll j\<close> is the page the driver shows at the \<open>j\<close>-th poll; the clock advances by the
  three seconds slept between two polls.
\<close>

function wait_for_manual_solve_loop :: "(nat \<Rightarrow> driver_state) \<Rightarrow> nat \<Rightarrow> nat \<Rightarrow> nat \<Rightarrow> bool" where
  "wait_for_manual_solve_loop poll timeout elapsed check_count =
     (if elapsed < timeout
      then (if \<not> silent_captcha_check (poll check_count) then True
            else wait_for_manual_solve_loop poll timeout (elapsed + 3) (check_count + 1))
      else False)"
  by pat_completeness auto
termination
  by (relation "measure (\<lambda>(poll, timeout, elapsed, check_count). timeout - elapsed)") auto

definition wait_for_manual_solve :: "(nat \<Rightarrow> driver_state) \<Rightarrow> nat \<Rightarrow> bool" where
  "wait_for_manual_solve poll timeout = wait_for_manual_solve_loop poll timeout 0 0"

text \<open>
  The world outside one scraper: the page the browser shows after the \<open>k\<close>-th call of
  \<open>driver.get\<close> (\<open>None\<close> when the navigation or the wait for the body raises), the pages
  it shows while a captcha is being solved by hand, whether the \<open>k\<close>-th launch of Chrome
  succeeds, the draw of \<open>random.choice\<close> at that launch, and what the \<open>k\<close>-th throttle
  wait reads from the random generator and the clock.
\<close>

record web =
  response :: "nat \<Rightarrow> string \<Rightarrow> driver_state option"
  poll_page :: "nat \<Rightarrow> nat \<Rightarrow> driver_state"
  launch_ok :: "nat \<Rightarrow> bool"
  proxy_draw :: "nat \<Rightarrow> nat"
  clock :: "nat \<Rightarrow> real \<times> real \<times> real"

text \<open>
  The scraper. \<open>driver\<close> says whether \<open>self.driver\<close> is a live driver or \<open>None\<close>; the
  fingerprint, which no branch reads, is left out. The last four fields are not in the
  source: they count the loop iterations, the launches of Chrome, the calls of
  \<open>driver.get\<close> and the calls of \<open>rotate_ip\<close>.
\<close>

record ProtectedScraper =
  proxy_manager :: ProxyManager
  throttle_manager :: ThrottleManager
  driver :: bool
  current_proxy :: "string option"
  max_retries :: int
  attempts :: nat
  launches :: nat
  navigations :: nat
  rotations :: nat

definition ProtectedScraper_init :: "string list \<Rightarrow> ProtectedScraper" where
  "ProtectedScraper_init pl =
     \<lparr>proxy_manager = ProxyManager_init pl,
      throttle_manager = ThrottleManager_init 2.0 5.0 10,
      driver = False, current_proxy = None, max_retries = 3,
      attempts = 0, launches = 0, navigations = 0, rotations = 0\<rparr>"

definition quit_driver :: "ProtectedScraper \<Rightarrow> ProtectedScraper" where
  "quit_driver s = (if driver s then s\<lparr>driver := False\<rparr> else s)"

text \<open>\<open>start_driver\<close> with \<open>create_protected_driver\<close> inlined: the exception raised by
  the launch, if any, and the scraper after the call.\<close>

definition start_driver :: "web \<Rightarrow> ProtectedScraper \<Rightarrow> py_exception option \<times> ProtectedScraper" where
  "start_driver w s =
     (let s1 = (if driver s then quit_driver s else s) in
      case get_next_proxy (proxy_draw w (launches s1)) (proxy_manager s1) of
        (proxy, pm) \<Rightarrow>
          let proxy_used =
                (case proxy of
                   None \<Rightarrow> None
                 | Some p \<Rightarrow>
                     if p \<noteq> [] \<and> get_chrome_proxy_arg (Some p) \<noteq> None then Some p
                     else None);
              s2 = s1\<lparr>proxy_manager := pm, launches := launches s1 + 1\<rparr>
          in if launch_ok w (launches s1)
             then (None, s2\<lparr>driver := True, current_proxy := proxy_used\<rparr>)
             else (Some WebDriverException, s2))"

definition rotate_ip :: "web \<Rightarrow> ProtectedScraper \<Rightarrow> py_exception option \<times> ProtectedScraper" where
  "rotate_ip w s =
     (let s0 = s\<lparr>rotations := rotations s + 1\<rparr>;
          s1 = (case current_proxy s0 of
                  None \<Rightarrow> s0
                | Some p \<Rightarrow>
                    if p = [] then s0
                    else s0\<lparr>proxy_manager := mark_failed (Some p) (proxy_manager s0)\<rparr>);
          s2 = quit_driver s1
      in start_driver w s2)"

text \<open>One pass through the \<open>try\<close> block of \<open>navigate_with_protection\<close>: it returns, goes
  on to the next attempt, or raises into the \<open>except\<close> clause.\<close>

datatype attempt_result = Returned bool | Continue | Raised py_exception

definition rotate_and_continue :: "web \<Rightarrow> ProtectedScraper \<Rightarrow> attempt_result \<times> ProtectedScraper" where
  "rotate_and_continue w s =
     (case rotate_ip w s of
        (Some e, s') \<Rightarrow> (Raised e, s')
      | (None, s') \<Rightarrow> (Continue, s'))"

definition try_navigate :: "web \<Rightarrow> string \<Rightarrow> ProtectedScraper \<Rightarrow> attempt_result \<times> ProtectedScraper" where
  "try_navigate w url s0 =
     (case clock w (attempts s0) of
        (u, now, now') \<Rightarrow>
          let s = s0\<lparr>attempts := attempts s0 + 1\<rparr> in
          case wait u now now' (throttle_manager s) of
            (Inl e, tm) \<Rightarrow> (Raised e, s\<lparr>throttle_manager := tm\<rparr>)
          | (Inr slept, tm) \<Rightarrow>
              let s1 = s\<lparr>throttle_manager := tm\<rparr> in
              case (if \<not> driver s1 then start_driver w s1 else (None, s1)) of
                (Some e, s2) \<Rightarrow> (Raised e, s2)
              | (None, s2) \<Rightarrow>
                  let s3 = s2\<lparr>navigations := navigations s2 + 1\<rparr> in
                  case response w (navigations s2) url of
                    None \<Rightarrow> (Raised TimeoutException, s3)
                  | Some page \<Rightarrow>
                      if fst (is_blocked page)
                      then rotate_and_continue w
                             (s3\<lparr>throttle_manager :=
                                   report_error ''block'' (throttle_manager s3)\<rparr>)
                      else if fst (is_captcha_present page)
                              \<and> \<not> wait_for_manual_solve (poll_page w (navigations s2)) 300
                      then rotate_and_continue w s3
                      else (Returned True,
                            s3\<lparr>throttle_manager := report_success (throttle_manager s3)\<rparr>))"

function navigate_loop :: "web \<Rightarrow> string \<Rightarrow> int \<Rightarrow> int \<Rightarrow> ProtectedScraper
    \<Rightarrow> (py_exception + bool) \<times> ProtectedScraper" where
  "navigate_loop w url retries attempt s =
     (if attempt < retries
      then (case try_navigate w url s of
              (Returned b, s') \<Rightarrow> (Inr b, s')
            | (Continue, s') \<Rightarrow> navigate_loop w url retries (attempt + 1) s'
            | (Raised e, s') \<Rightarrow>
                let s1 = s'\<lparr>throttle_manager :=
                              report_error ''generic'' (throttle_manager s')\<rparr>
                in if attempt < retries - 1
                   then (case rotate_ip w s1 of
                           (Some e', s2) \<Rightarrow> (Inl e', s2)
                         | (None, s2) \<Rightarrow> navigate_loop w url retries (attempt + 1) s2)
                   else navigate_loop w url retries (attempt + 1) s1)
      else (Inr False, s))"
  by pat_completeness auto
termination
  by (relation "measure (\<lambda>(w, url, retries, attempt, s). nat (retries - attempt))") auto

declare navigate_loop.simps [simp del]

definition navigate_with_protection :: "web \<Rightarrow> string \<Rightarrow> int option \<Rightarrow> ProtectedScraper
    \<Rightarrow> (py_exception + bool) \<times> ProtectedScraper" where
  "navigate_with_protection w url mr s =
     (let retries = (case mr of
                       None \<Rightarrow> max_retries s
                     | Some n \<Rightarrow> if n = 0 then max_retries s else n)
      in navigate_loop w url retries 0 s)"

subsection \<open>Every page blocked\<close>

lemma start_driver_ok:
  assumes "\<forall>k. launch_ok w k"
  shows "\<exists>s'. start_driver w s = (None, s') \<and> driver s'
           \<and> rotations s' = rotations s \<and> navigations s' = navigations s
           \<and> attempts s' = attempts s \<and> throttle_manager s' = throttle_manager s"
  using assms
  by (simp add: start_driver_def quit_driver_def Let_def split: prod.splits)

lemma rotate_ip_ok:
  assumes "\<forall>k. launch_ok w k"
  shows "\<exists>s'. rotate_ip w s = (None, s') \<and> driver s'
           \<and> rotations s' = rotations s + 1 \<and> navigations s' = navigations s
           \<and> attempts s' = attempts s \<and> throttle_manager s' = throttle_manager s"
proof -
  define s2 where "s2 = quit_driver
     (case current_proxy (s\<lparr>rotations := rotations s + 1\<rparr>) of
        None \<Rightarrow> s\<lparr>rotations := rotations s + 1\<rparr>
      | Some p \<Rightarrow>
          if p = [] then s\<lparr>rotations := rotations s + 1\<rparr>
          else s\<lparr>rotations := rotations s + 1,
                 proxy_manager := mark_failed (Some p) (proxy_manager (s\<lparr>rotations := rotations s + 1\<rparr>))\<rparr>)"
  have r: "rotate_ip w s = start_driver w s2"
    by (simp add: rotate_ip_def s2_def Let_def split: option.splits)
  have f: "rotations s2 = rotations s + 1" "navigations s2 = navigations s"
    "attempts s2 = attempts s" "throttle_manager s2 = throttle_manager s"
    by (simp_all add: s2_def quit_driver_def split: option.splits)
  from start_driver_ok [OF assms, of s2] r f show ?thesis
    by auto
qed

lemma burst_threshold_report_error:
  "burst_threshold (report_error k tm) = burst_threshold tm"
  by (simp add: report_error_def)

lemma wait_no_raise:
  assumes "burst_threshold tm \<noteq> 0"
  shows "\<exists>slept tm'. wait u now now' tm = (Inr slept, tm')
           \<and> burst_threshold tm' = burst_threshold tm"
  using assms by (simp add: wait_def Let_def)

lemma try_navigate_blocked:
  assumes launch: "\<forall>k. launch_ok w k"
    and blocked: "\<forall>k. \<exists>page. response w k url = Some page \<and> fst (is_blocked page)"
    and bt: "burst_threshold (throttle_manager s) \<noteq> 0"
  shows "\<exists>s'. try_navigate w url s = (Continue, s')
           \<and> rotations s' = rotations s + 1 \<and> navigations s' = navigations s + 1
           \<and> burst_threshold (throttle_manager s') \<noteq> 0"
proof -
  obtain u now now' where c: "clock w (attempts s) = (u, now, now')"
    by (cases "clock w (attempts s)") auto
  from wait_no_raise [OF bt, of u now now'] obtain slept tm where
    wt: "wait u now now' (throttle_manager s) = (Inr slept, tm)"
    and btm: "burst_threshold tm = burst_threshold (throttle_manager s)"
    by blast
  let ?s1 = "s\<lparr>attempts := attempts s + 1, throttle_manager := tm\<rparr>"
  have "\<exists>s2. (if \<not> driver ?s1 then start_driver w ?s1 else (None, ?s1)) = (None, s2)
          \<and> rotations s2 = rotations s \<and> navigations s2 = navigations s
          \<and> throttle_manager s2 = tm"
    using start_driver_ok [OF launch, of ?s1]
    by auto
  then obtain s2 where
    sd: "(if \<not> driver ?s1 then start_driver w ?s1 else (None, ?s1)) = (None, s2)"
    and f2: "rotations s2 = rotations s" "navigations s2 = navigations s"
      "throttle_manager s2 = tm"
    by blast
  from blocked obtain page where
    pg: "response w (navigations s2) url = Some page" "fst (is_blocked page)"
    by blast
  let ?s4 = "s2\<lparr>navigations := navigations s2 + 1,
      throttle_manager := report_error ''block'' (throttle_manager s2)\<rparr>"
  have "try_navigate w url s =
      (case (if \<not> driver ?s1 then start_driver w ?s1 else (None, ?s1)) of
                (Some e, s2) \<Rightarrow> (Raised e, s2)
              | (None, s2) \<Rightarrow>
                  let s3 = s2\<lparr>navigations := navigations s2 + 1\<rparr> in
                  case response w (navigations s2) url of
                    None \<Rightarrow> (Raised TimeoutException, s3)
                  | Some page \<Rightarrow>
                      if fst (is_blocked page)
                      then rotate_and_continue w
                             (s3\<lparr>throttle_manager :=
                                   report_error ''block'' (throttle_manager s3)\<rparr>)
                      else if fst (is_captcha_present page)
                              \<and> \<not> wait_for_manual_solve (poll_page w (navigations s2)) 300
                      then rotate_and_continue w s3
                      else (Returned True,
                            s3\<lparr>throttle_manager := report_success (throttle_manager s3)\<rparr>))"
    using c wt by (simp add: try_navigate_def Let_def)
  also have "\<dots> = rotate_and_continue w ?s4"
    unfolding sd using pg by (simp add: Let_def)
  finally have tn: "try_navigate w url s = rotate_and_continue w ?s4" .
  from rotate_ip_ok [OF launch, of ?s4] obtain s5 where
    r: "rotate_ip w ?s4 = (None, s5)" "rotations s5 = rotations ?s4 + 1"
      "navigations s5 = navigations ?s4" "throttle_manager s5 = throttle_manager ?s4"
    by blast
  have "rotate_and_continue w ?s4 = (Continue, s5)"
    using r(1) by (simp add: rotate_and_continue_def)
  with tn r f2 btm bt show ?thesis
    by (simp add: burst_threshold_report_error)
qed

lemma navigate_loop_all_blocked:
  assumes launch: "\<forall>k. launch_ok w k"
    and blocked: "\<forall>k. \<exists>page. response w k url = Some page \<and> fst (is_blocked page)"
  shows "burst_threshold (throttle_manager s) \<noteq> 0 \<Longrightarrow>
         \<exists>s'. navigate_loop w url retries attempt s = (Inr False, s')
           \<and> rotations s' = rotations s + nat (retries - attempt)
           \<and> navigations s' = navigations s + nat (retries - attempt)"
proof (induction "nat (retries - attempt)" arbitrary: attempt s)
  case 0
  then have "\<not> attempt < retries"
    by simp
  then show ?case
    by (simp add: navigate_loop.simps)
next
  case (Suc n)
  then have lt: "attempt < retries" and n: "n = nat (retries - (attempt + 1))"
    by simp_all
  from try_navigate_blocked [OF launch blocked Suc.prems]
  obtain s1 where
    t: "try_navigate w url s = (Continue, s1)" "rotations s1 = rotations s + 1"
      "navigations s1 = navigations s + 1" "burst_threshold (throttle_manager s1) \<noteq> 0"
    by blast
  from Suc.hyps(1) [OF n t(4)]
  obtain s' where
    r: "navigate_loop w url retries (attempt + 1) s1 = (Inr False, s')"
      "rotations s' = rotations s1 + nat (retries - (attempt + 1))"
      "navigations s' = navigations s1 + nat (retries - (attempt + 1))"
    by blast
  have "navigate_loop w url retries attempt s = (Inr False, s')"
    using lt t(1) r(1) by (simp add: navigate_loop.simps [of w url retries attempt s])
  moreover have "1 + nat (retries - (attempt + 1)) = nat (retries - attempt)"
    using lt by simp
  ultimately show ?case
    using r t by simp
qed

text \<open>A web on which every navigation ends on a page titled "Access Denied", every
  launch of Chrome succeeds, and no proxies are configured.\<close>

definition access_denied_page :: driver_state where
  "access_denied_page =
     \<lparr>current_url = ''https://www.amazon.in/dp/B000000000'', title = ''Access Denied'',
      page_source = ''<html></html>'', displayed_by_xpath = (\<lambda>_. False)\<rparr>"

definition always_blocked :: web where
  "always_blocked =
     \<lparr>response = (\<lambda>k url. Some access_denied_page),
      poll_page = (\<lambda>k j. access_denied_page),
      launch_ok = (\<lambda>k. True),
      proxy_draw = (\<lambda>k. 0),
      clock = (\<lambda>k. (0, 0, 0))\<rparr>"

lemma access_denied_page_blocked: "fst (is_blocked access_denied_page)"
  using denied_title_blocked
  by (simp add: is_blocked_cases access_denied_page_def)

text \<open>
  Claim C1 at a concrete input: three retries, every page blocked, every launch of Chrome
  successful. The call returns \<open>False\<close> without raising after three navigations, and
  \<open>rotate_ip\<close> has run three times, once after every blocked page, the last one
  included; the claim says twice.
\<close>

theorem navigate_all_blocked_rotations:
  "fst (navigate_with_protection always_blocked url (Some 3) (ProtectedScraper_init []))
     = Inr False
   \<and> navigations (snd (navigate_with_protection always_blocked url (Some 3)
         (ProtectedScraper_init []))) = 3
   \<and> rotations (snd (navigate_with_protection always_blocked url (Some 3)
         (ProtectedScraper_init []))) = 3"
proof -
  have launch: "\<forall>k. launch_ok always_blocked k"
    by (simp add: always_blocked_def)
  have blocked: "\<forall>k. \<exists>page. response always_blocked k url = Some page
      \<and> fst (is_blocked page)"
    using access_denied_page_blocked by (simp add: always_blocked_def)
  have bt: "burst_threshold (throttle_manager (ProtectedScraper_init [])) \<noteq> 0"
    by (simp add: ProtectedScraper_init_def ThrottleManager_init_def)
  from navigate_loop_all_blocked [OF launch blocked bt, of 3 0]
  obtain s' where
    "navigate_loop always_blocked url 3 0 (ProtectedScraper_init []) = (Inr False, s')"
    "rotations s' = rotations (ProtectedScraper_init []) + nat (3 - 0)"
    "navigations s' = navigations (ProtectedScraper_init []) + nat (3 - 0)"
    by blast
  then show ?thesis
    by (simp add: navigate_with_protection_def ProtectedScraper_init_def)
qed

section \<open>fingerprint.py: BrowserFingerprint\<close>

text \<open>
  \<open>random.Random\<close> and \<open>hashlib.md5\<close> belong to the Python library. The generator is
  taken as a parameter: a state type \<open>'g\<close>, the state that \<open>random.Random(seed)\<close> starts
  in, the draw of an index below \<open>n\<close> and the draw of a float in \<open>[0, 1)\<close>, each
  returning the next state. The three methods the module calls are defined from them as
  the library defines them.
\<close>

record 'g py_random =
  seeded :: "int \<Rightarrow> 'g"
  randbelow :: "nat \<Rightarrow> 'g \<Rightarrow> nat \<times> 'g"
  random :: "'g \<Rightarrow> real \<times> 'g"

definition rng_choice :: "'g py_random \<Rightarrow> 'a list \<Rightarrow> 'g \<Rightarrow> 'a \<times> 'g" where
  "rng_choice R xs g = (case randbelow R (length xs) g of (i, g') \<Rightarrow> (xs ! i, g'))"

definition rng_randint :: "'g py_random \<Rightarrow> int \<Rightarrow> int \<Rightarrow> 'g \<Rightarrow> int \<times> 'g" where
  "rng_randint R a b g =
     (case randbelow R (nat (b - a + 1)) g of (i, g') \<Rightarrow> (a + int i, g'))"

definition rng_uniform :: "'g py_random \<Rightarrow> real \<Rightarrow> real \<Rightarrow> 'g \<Rightarrow> real \<times> 'g" where
  "rng_uniform R a b g = (case random R g of (x, g') \<Rightarrow> (a + (b - a) * x, g'))"

definition SCREEN_RESOLUTIONS :: "(int \<times> int) list" where
  "SCREEN_RESOLUTIONS =
     [(1920, 1080), (1366, 768), (1536, 864), (1440, 900),
      (1280, 720), (1600, 900), (2560, 1440), (1280, 800),
      (1680, 1050), (1360, 768), (1920, 1200), (2560, 1080)]"

definition USER_AGENTS :: "string list" where
  "USER_AGENTS =
     [''Mozilla/5.0 (Windows NT 10.0; Win64; x64) AppleWebKit/537.36 (KHTML, like Gecko) Chrome/121.0.0.0 Safari/537.36'',
      ''Mozilla/5.0 (Windows NT 10.0; Win64; x64) AppleWebKit/537.36 (KHTML, like Gecko) Chrome/120.0.0.0 Safari/537.36'',
      ''Mozilla/5.0 (Windows NT 10.0; Win64; x64) AppleWebKit/537.36 (KHTML, like Gecko) Chrome/119.0.0.0 Safari/537.36'',
      ''Mozilla/5.0 (Windows NT 10.0; Win64; x64) AppleWebKit/537.36 (KHTML, like Gecko) Chrome/122.0.0.0 Safari/537.36'',
      ''Mozilla/5.0 (Windows NT 10.0; Win64; x64) AppleWebKit/537.36 (KHTML, like Gecko) Chrome/118.0.0.0 Safari/537.36'',
      ''Mozilla/5.0 (Windows NT 11.0; Win64; x64) AppleWebKit/537.36 (KHTML, like Gecko) Chrome/121.0.0.0 Safari/537.36'',
      ''Mozilla/5.0 (Windows NT 11.0; Win64; x64) AppleWebKit/537.36 (KHTML, like Gecko) Chrome/120.0.0.0 Safari/537.36'']"

definition LANGUAGES :: "string list list" where
  "LANGUAGES = [[''en-US'', ''en''], [''en-GB'', ''en''], [''en-IN'', ''en'']]"

text \<open>A timezone is its name and its offset in minutes.\<close>

definition TIMEZONES :: "(string \<times> int) list" where
  "TIMEZONES =
     [(''Asia/Kolkata'', - 330), (''America/New_York'', 300),
      (''America/Los_Angeles'', 480), (''Europe/London'', 0)]"

text \<open>A WebGL configuration is its vendor and its renderer.\<close>

definition WEBGL_CONFIGS :: "(string \<times> string) list" where
  "WEBGL_CONFIGS =
     [(''Google Inc. (NVIDIA)'', ''ANGLE (NVIDIA, NVIDIA GeForce GTX 1650 Direct3D11 vs_5_0 ps_5_0, D3D11)''),
      (''Google Inc. (NVIDIA)'', ''ANGLE (NVIDIA, NVIDIA GeForce RTX 3060 Direct3D11 vs_5_0 ps_5_0, D3D11)''),
      (''Google Inc. (Intel)'', ''ANGLE (Intel, Intel(R) UHD Graphics 630 Direct3D11 vs_5_0 ps_5_0, D3D11)''),
      (''Google Inc. (AMD)'', ''ANGLE (AMD, AMD Radeon RX 580 Series Direct3D11 vs_5_0 ps_5_0, D3D11)''),
      (''Google Inc. (Intel)'', ''ANGLE (Intel, Intel(R) Iris(R) Xe Graphics Direct3D11 vs_5_0 ps_5_0, D3D11)''),
      (''Google Inc. (NVIDIA)'', ''ANGLE (NVIDIA, NVIDIA GeForce RTX 2070 Direct3D11 vs_5_0 ps_5_0, D3D11)'')]"

definition HARDWARE_CONCURRENCY :: "nat list" where
  "HARDWARE_CONCURRENCY = [4, 6, 8, 12, 16]"

definition DEVICE_MEMORY :: "nat list" where
  "DEVICE_MEMORY = [4, 8, 16, 32]"

definition PLATFORMS :: "string list" where
  "PLATFORMS = [''Win32'']"

record BrowserFingerprint =
  seed :: int
  screen_resolution :: "int \<times> int"
  screen_width :: int
  screen_height :: int
  color_depth :: nat
  pixel_ratio :: real
  window_width :: int
  window_height :: int
  user_agent :: string
  languages :: "string list"
  timezone :: "string \<times> int"
  webgl :: "string \<times> string"
  hardware_concurrency :: nat
  device_memory :: nat
  platform :: string
  canvas_noise :: real
  audio_noise :: real
  canvas_hash :: string
  webgl_hash :: string
  audio_hash :: string

text \<open>\<open>str(n)\<close> for an integer.\<close>

definition str_int :: "int \<Rightarrow> string" where
  "str_int n = (if n < 0 then ''-'' @ str_nat (nat (- n)) else str_nat (nat n))"

text \<open>\<open>_generate_ids\<close>: the first 16 hexadecimal digits of three MD5 digests;
  \<open>md5\<close> stands for \<open>hashlib.md5(s.encode()).hexdigest()\<close>.\<close>

definition generate_ids :: "(string \<Rightarrow> string) \<Rightarrow> BrowserFingerprint \<Rightarrow> BrowserFingerprint" where
  "generate_ids md5 fp =
     (let base = str_int (seed fp) @ ''-'' @ user_agent fp @ ''-'' @ str_int (screen_width fp)
      in fp\<lparr>canvas_hash := take 16 (md5 (''canvas-'' @ base)),
             webgl_hash := take 16 (md5 (''webgl-'' @ base)),
             audio_hash := take 16 (md5 (''audio-'' @ base))\<rparr>)"

text \<open>\<open>_generate_fingerprint\<close>, from the generator state \<open>self._rng\<close> starts in.\<close>

definition generate_fingerprint :: "'g py_random \<Rightarrow> (string \<Rightarrow> string) \<Rightarrow> int \<Rightarrow> 'g
    \<Rightarrow> BrowserFingerprint" where
  "generate_fingerprint R md5 sd g0 =
     (let (resolution, g1) = rng_choice R SCREEN_RESOLUTIONS g0;
          (depth, g2) = rng_choice R [24, 32] g1;
          (ratio, g3) = rng_choice R [1, 1.25, 1.5, 2] g2;
          (inset_w, g4) = rng_randint R 0 100 g3;
          (inset_h, g5) = rng_randint R 60 150 g4;
          (agent, g6) = rng_choice R USER_AGENTS g5;
          (langs, g7) = rng_choice R LANGUAGES g6;
          (tz, g8) = rng_choice R TIMEZONES g7;
          (gl, g9) = rng_choice R WEBGL_CONFIGS g8;
          (cores, g10) = rng_choice R HARDWARE_CONCURRENCY g9;
          (memory, g11) = rng_choice R DEVICE_MEMORY g10;
          (plat, g12) = rng_choice R PLATFORMS g11;
          (canvas, g13) = rng_uniform R (- 0.0001) 0.0001 g12;
          (audio, g14) = rng_uniform R (- 0.0001) 0.0001 g13
      in generate_ids md5
           \<lparr>seed = sd,
            screen_resolution = resolution,
            screen_width = fst resolution,
            screen_height = snd resolution,
            color_depth = depth,
            pixel_ratio = ratio,
            window_width = fst resolution - inset_w,
            window_height = snd resolution - inset_h,
            user_agent = agent,
            languages = langs,
            timezone = tz,
            webgl = gl,
            hardware_concurrency = cores,
            device_memory = memory,
            platform = plat,
            canvas_noise = canvas,
            audio_noise = audio,
            canvas_hash = [], webgl_hash = [], audio_hash = []\<rparr>)"

text \<open>
  \<open>BrowserFingerprint(seed)\<close>. \<open>now\<close> is the reading of the clock in milliseconds,
  \<open>int(datetime.now().timestamp() * 1000)\<close>, which the constructor uses only when the
  seed is \<open>None\<close>.
\<close>

definition BrowserFingerprint_init :: "'g py_random \<Rightarrow> (string \<Rightarrow> string) \<Rightarrow> int \<Rightarrow> int option
    \<Rightarrow> BrowserFingerprint" where
  "BrowserFingerprint_init R md5 now seed_arg =
     (let sd = (case seed_arg of None \<Rightarrow> now | Some n \<Rightarrow> n)
      in generate_fingerprint R md5 sd (seeded R sd))"

text \<open>
  Claim C5. Two constructions of \<open>BrowserFingerprint\<close> with the same seed \<open>S\<close>, made at
  any two readings of the clock, give the same fingerprint: every attribute drawn from the
  generator is equal, and so are the three derived hashes.
\<close>

theorem fingerprint_deterministic:
  "BrowserFingerprint_init R md5 now (Some S) = BrowserFingerprint_init R md5 now' (Some S)
   \<and> canvas_hash (BrowserFingerprint_init R md5 now (Some S))
       = canvas_hash (BrowserFingerprint_init R md5 now' (Some S))
   \<and> webgl_hash (BrowserFingerprint_init R md5 now (Some S))
       = webgl_hash (BrowserFingerprint_init R md5 now' (Some S))
   \<and> audio_hash (BrowserFingerprint_init R md5 now (Some S))
       = audio_hash (BrowserFingerprint_init R md5 now' (Some S))"
  by (simp add: BrowserFingerprint_init_def)

section \<open>scraper/extractor.py and extract/loader.py\<close>

text \<open>The newline character, and \<open>'=' * 80\<close>.\<close>

definition nl :: char where
  "nl = CHR 0x0A"

definition RULE :: string where
  "RULE = replicate 80 CHR ''=''"

text \<open>\<open>f"{n:,}"\<close>: the decimal digits of \<open>n\<close> in groups of three.\<close>

fun str_nat_commas :: "nat \<Rightarrow> string" where
  "str_nat_commas n =
     (if n < 1000 then str_nat n
      else str_nat_commas (n div 1000) @ '','' @
           [char_of (48 + n mod 1000 div 100), char_of (48 + n mod 100 div 10),
            char_of (48 + n mod 10)])"

declare str_nat_commas.simps [simp del]

text \<open>
  \<open>save_html_to_single_file\<close>: the file is its content; \<open>timestamp\<close> is the formatted
  reading of the clock. The result is the number of characters of the page and the file
  after the append.
\<close>

definition separator :: "string \<Rightarrow> string \<Rightarrow> string \<Rightarrow> string \<Rightarrow> string" where
  "separator page_label url timestamp html =
     [nl, nl] @ RULE @ [nl]
     @ ''PAGE: '' @ page_label @ [nl]
     @ ''URL: '' @ url @ [nl]
     @ ''TIMESTAMP: '' @ timestamp @ [nl]
     @ ''SIZE: '' @ str_nat_commas (length html) @ '' bytes'' @ [nl]
     @ RULE @ [nl, nl]"

definition save_html_to_single_file :: "driver_state \<Rightarrow> string \<Rightarrow> string \<Rightarrow> string
    \<Rightarrow> nat \<times> string" where
  "save_html_to_single_file d timestamp output_file page_label =
     (let html = page_source d;
          url = current_url d
      in (length html, output_file @ separator page_label url timestamp html @ html))"












text \<open>An entry of the list that \<open>split_pages\<close> returns; \<open>soup\<close> holds the text handed
  to \<open>BeautifulSoup\<close>.\<close>

record page_entry =
  label :: string
  url :: string
  timestamp :: string
  soup :: string



subsection \<open>Facts about prefixes and substrings\<close>




subsection \<open>Matching one header\<close>











definition header_text :: "string \<Rightarrow> string \<Rightarrow> string \<Rightarrow> string \<Rightarrow> string" where
  "header_text l u ts sz =
     RULE @ (nl # ''PAGE:'') @ CHR '' '' # l @ nl # ''URL:'' @ CHR '' '' # u
       @ nl # ''TIMESTAMP:'' @ CHR '' '' # ts @ nl # ''SIZE:'' @ CHR '' '' # sz @ nl # RULE"

lemma separator_header:
  "separator l u ts html =
     nl # nl # header_text l u ts (str_nat_commas (length html) @ '' bytes'') @ [nl, nl]"
  by (simp add: separator_def header_text_def)


subsection \<open>Scanning the file\<close>











subsection \<open>The size field\<close>








subsection \<open>Stripping\<close>





subsection \<open>Writing pages and reading them back\<close>

text \<open>A page as it is saved: the label, what the driver shows, and the timestamp.\<close>

type_synonym saved_page = "string \<times> driver_state \<times> string"

definition write_page :: "string \<Rightarrow> saved_page \<Rightarrow> string" where
  "write_page output_file p =
     (case p of (page_label, d, ts) \<Rightarrow>
        snd (save_html_to_single_file d ts output_file page_label))"

definition write_pages :: "string \<Rightarrow> saved_page list \<Rightarrow> string" where
  "write_pages output_file ps = foldl write_page output_file ps"

definition page_html :: "saved_page \<Rightarrow> string" where
  "page_html p = (case p of (page_label, d, ts) \<Rightarrow> page_source d)"


definition page_header :: "saved_page \<Rightarrow> string" where
  "page_header p =
     (case p of (page_label, d, ts) \<Rightarrow>
        header_text page_label (current_url d) ts
          (str_nat_commas (length (page_source d)) @ '' bytes''))"

definition page_block :: "saved_page \<Rightarrow> string" where
  "page_block p = nl # nl # page_header p @ nl # nl # page_html p"




lemma write_page_block: "write_page output_file p = output_file @ page_block p"
  by (cases p)
    (simp add: write_page_def save_html_to_single_file_def page_block_def page_header_def
      page_html_def separator_header Let_def)

lemma write_pages_blocks:
  "write_pages output_file ps = output_file @ concat (map page_block ps)"
  unfolding write_pages_def
  by (induction ps arbitrary: output_file) (simp_all add: write_page_block)












text \<open>Sample pages.\<close>

definition start_comment :: string where
  "start_comment = ''<!-- Amazon HTML Scrape Started: 2024-01-01 12:00:00 -->'' @ [nl]"








section \<open>A simulated browser session\<close>

text \<open>
  The browser is outside the repository. It is simulated by a site that serves pages:
  a page has a source, a title, a height, and the elements that the XPath and CSS
  lookups find on it. An element has its \<open>href\<close> attribute, whether it is displayed, the
  vertical position of its top edge in the document, and what a click through a script
  and a native click do: raise, or go to a URL (or nowhere). Pages load at once, so that
  waiting does not change what the browser shows.
\<close>

datatype click = ClickRaises | ClickGoes "string option"

record element =
  href :: "string option"
  displayed :: bool
  top_y :: int
  js_click :: click
  native_click :: click

record web_page =
  html_text :: string
  title_text :: string
  scroll_height :: int
  by_xpath :: "string \<Rightarrow> element option"
  by_css :: "string \<Rightarrow> element option"

text \<open>\<open>site u\<close> is the URL the browser ends on and the page it shows there when it is
  sent to \<open>u\<close>; \<open>None\<close> when the load times out.\<close>

record browser =
  site :: "string \<Rightarrow> (string \<times> web_page) option"
  location :: string
  shown :: web_page
  scroll_y :: int
  inner_height :: int

text \<open>What the detectors read from the driver when it shows page \<open>pg\<close> at URL \<open>u\<close>.\<close>

definition page_view :: "string \<Rightarrow> web_page \<Rightarrow> driver_state" where
  "page_view u pg =
     \<lparr>current_url = u, title = title_text pg, page_source = html_text pg,
      displayed_by_xpath =
        (\<lambda>x. case by_xpath pg x of None \<Rightarrow> False | Some e \<Rightarrow> displayed e)\<rparr>"

definition view :: "browser \<Rightarrow> driver_state" where
  "view b = page_view (location b) (shown b)"

text \<open>\<open>driver.get(u)\<close>: the browser after the load, or \<open>None\<close> for a
  \<open>TimeoutException\<close>.\<close>

definition get :: "string \<Rightarrow> browser \<Rightarrow> browser option" where
  "get u b =
     (case site b u of
        None \<Rightarrow> None
      | Some (u', pg) \<Rightarrow> Some (b\<lparr>location := u', shown := pg, scroll_y := 0\<rparr>))"

text \<open>A click that goes to a URL; a target that does not load leaves the page.\<close>

definition follow :: "string option \<Rightarrow> browser \<Rightarrow> browser" where
  "follow target b =
     (case target of
        None \<Rightarrow> b
      | Some u \<Rightarrow> (case get u b of None \<Rightarrow> b | Some b' \<Rightarrow> b'))"

text \<open>\<open>window.scrollTo\<close>: the position is kept within the page.\<close>

definition scroll_to :: "int \<Rightarrow> browser \<Rightarrow> browser" where
  "scroll_to pos b =
     b\<lparr>scroll_y := max 0 (min pos (scroll_height (shown b) - inner_height b))\<rparr>"

section \<open>scraper/settings.py\<close>

definition SEE_MORE_REVIEWS_XPATH :: string where
  "SEE_MORE_REVIEWS_XPATH = ''//a[@data-hook='see-all-reviews-link-foot']''"

definition SEE_MORE_REVIEWS_CSS :: string where
  "SEE_MORE_REVIEWS_CSS = ''a[data-hook='see-all-reviews-link-foot']''"

definition NEXT_PAGE_XPATH :: string where
  "NEXT_PAGE_XPATH = ''//a[contains(text(), 'Next page')]''"

definition NEXT_PAGE_FALLBACKS :: "(string \<times> string) list" where
  "NEXT_PAGE_FALLBACKS =
     [(''xpath'', ''//li[@class='a-last']/a''),
      (''xpath'', ''//a[contains(text(), 'Next page')]''),
      (''xpath'', ''//a[contains(@href, 'pageNumber')]//span[contains(text(), 'Next')]''),
      (''xpath'', ''//a[contains(text(), 'Next')]''),
      (''css'', ''li.a-last a''),
      (''css'', ''.a-pagination .a-last a''),
      (''css'', ''a[href*='pageNumber'][class*='a-last']'')]"

definition MAX_REVIEW_PAGES :: nat where
  "MAX_REVIEW_PAGES = 500"

section \<open>scraper/worker.py and scraper/actions.py\<close>

text \<open>
  The scraper: the driver, the content of the output file and the two counters. Three
  fields are not in the source: the number of random draws made so far, the log of the
  loads, waits and clicks that worker.py makes, and the pages saved so far. The
  surroundings give the random draws and the readings of the clock.
\<close>

datatype event = Loaded string | Waited string | Slept nat | Clicked

record surroundings =
  dice :: "nat \<Rightarrow> nat"
  stamps :: "nat \<Rightarrow> string"

record AmazonHTMLScraper =
  browser :: browser
  output_file :: string
  total_pages :: nat
  total_bytes :: nat
  draws :: nat
  events :: "event list"
  saved :: "saved_page list"

definition draw :: "surroundings \<Rightarrow> AmazonHTMLScraper \<Rightarrow> nat \<times> AmazonHTMLScraper" where
  "draw env s = (dice env (draws s), s\<lparr>draws := draws s + 1\<rparr>)"

text \<open>\<open>random.randint(a, b)\<close>\<close>

definition randint :: "surroundings \<Rightarrow> int \<Rightarrow> int \<Rightarrow> AmazonHTMLScraper \<Rightarrow> int \<times> AmazonHTMLScraper" where
  "randint env a b s =
     (case draw env s of (r, s') \<Rightarrow> (a + int (r mod nat (b - a + 1)), s'))"

text \<open>\<open>random_wait(min_sec, max_sec, reason)\<close>: one draw for the duration, and the
  wait.\<close>

definition random_wait :: "surroundings \<Rightarrow> string \<Rightarrow> AmazonHTMLScraper \<Rightarrow> AmazonHTMLScraper" where
  "random_wait env reason s =
     (case draw env s of (r, s') \<Rightarrow> s'\<lparr>events := events s' @ [Waited reason]\<rparr>)"

definition sleep :: "nat \<Rightarrow> AmazonHTMLScraper \<Rightarrow> AmazonHTMLScraper" where
  "sleep seconds s = s\<lparr>events := events s @ [Slept seconds]\<rparr>"

text \<open>\<open>is_element_in_viewport\<close>: \<open>rect.top >= 0 && rect.top <= wh\<close>\<close>

definition is_element_in_viewport :: "browser \<Rightarrow> element \<Rightarrow> bool" where
  "is_element_in_viewport b e =
     (0 \<le> top_y e - scroll_y b \<and> top_y e - scroll_y b \<le> inner_height b)"

text \<open>
  The loop of \<open>human_scroll\<close>. The height that the source reads again at the end of
  each turn is read here where the loop condition needs it. The pauses between two
  scroll ticks take a draw and are not logged.
\<close>

function human_scroll_loop :: "surroundings \<Rightarrow> string option \<Rightarrow> bool \<Rightarrow> int \<Rightarrow> int
    \<Rightarrow> AmazonHTMLScraper \<Rightarrow> element option \<times> AmazonHTMLScraper" where
  "human_scroll_loop env target_xpath stop_on_find viewport_height current_pos s =
     (if current_pos < scroll_height (shown (browser s)) - viewport_height
      then
        (case randint env 300 500 s of
           (scroll_amount, s1) \<Rightarrow>
             let pos1 = current_pos + scroll_amount;
                 s2 = s1\<lparr>browser := scroll_to pos1 (browser s1)\<rparr>;
                 s3 = snd (draw env s2);
                 found = (case target_xpath of
                            None \<Rightarrow> None
                          | Some x \<Rightarrow>
                              if stop_on_find
                              then (case by_xpath (shown (browser s3)) x of
                                      None \<Rightarrow> None
                                    | Some e \<Rightarrow>
                                        if is_element_in_viewport (browser s3) e
                                        then Some e else None)
                              else None)
             in case found of
                  Some e \<Rightarrow> (Some e, s3)
                | None \<Rightarrow>
                    (case draw env s3 of
                       (r, s4) \<Rightarrow>
                         if r mod 10 = 0
                         then (case randint env 30 80 s4 of
                                 (back, s5) \<Rightarrow>
                                   let pos2 = max 0 (pos1 - back) in
                                   human_scroll_loop env target_xpath stop_on_find
                                     viewport_height pos2
                                     (s5\<lparr>browser := scroll_to pos2 (browser s5)\<rparr>))
                         else human_scroll_loop env target_xpath stop_on_find
                                viewport_height pos1 s4))
      else (None, s))"
  by pat_completeness auto

lemma draw_browser: "draw env s = (r, s') \<Longrightarrow> browser s' = browser s"
  by (auto simp: draw_def)

lemma randint_range:
  assumes "randint env a b s = (x, s')" and "a \<le> b"
  shows "a \<le> x \<and> x \<le> b \<and> browser s' = browser s"
proof -
  have "0 < nat (b - a + 1)"
    using assms(2) by simp
  then have "int (dice env (draws s) mod nat (b - a + 1)) < int (nat (b - a + 1))"
    using mod_less_divisor of_nat_less_iff by blast
  then show ?thesis
    using assms by (auto simp: randint_def draw_def)
qed

lemma shown_scroll_to: "shown (scroll_to pos b) = shown b"
  by (simp add: scroll_to_def)

termination human_scroll_loop
proof (relation "measure (\<lambda>(env, target_xpath, stop_on_find, viewport_height, current_pos, s).
      nat (scroll_height (shown (browser s)) - viewport_height - current_pos))", goal_cases)
  case 1
  show ?case by simp
next
  case (2 env target_xpath stop_on_find viewport_height current_pos s x y xa xb xc xd xe ya
      xf yb xg)
  from 2(2) have a: "300 \<le> x" "browser y = browser s"
    using randint_range [of env 300 500 s x y] by auto
  from 2(10) have b: "xf \<le> 80" "browser yb = browser ya"
    using randint_range [of env 30 80 ya xf yb] by auto
  from 2(8) have c: "browser ya = browser xc"
    using draw_browser [of env xc xe ya] by simp
  from 2(4,5) have d: "shown (browser xc) = shown (browser y)"
    by (simp add: draw_def shown_scroll_to)
  from 2(3,11) a b have "current_pos < xg"
    by simp
  with 2(1) a b c d show ?case
    by (simp add: shown_scroll_to)
next
  case (3 env target_xpath stop_on_find viewport_height current_pos s x y xa xb xc xd xe ya)
  from 3(2) have a: "300 \<le> x" "browser y = browser s"
    using randint_range [of env 300 500 s x y] by auto
  from 3(8) have c: "browser ya = browser xc"
    using draw_browser [of env xc xe ya] by simp
  from 3(4,5) have d: "shown (browser xc) = shown (browser y)"
    by (simp add: draw_def shown_scroll_to)
  from 3(3) a have "current_pos < xa"
    by simp
  with 3(1) a c d show ?case
    by simp
qed

declare human_scroll_loop.simps [simp del]

text \<open>\<open>human_scroll(driver, target_xpath, stop_on_find)\<close>\<close>

definition human_scroll :: "surroundings \<Rightarrow> string option \<Rightarrow> bool \<Rightarrow> AmazonHTMLScraper
    \<Rightarrow> element option \<times> AmazonHTMLScraper" where
  "human_scroll env target_xpath stop_on_find s =
     human_scroll_loop env target_xpath stop_on_find (inner_height (browser s)) 0 s"

text \<open>\<open>save_html_to_single_file\<close> on the current page, with the two counters that every
  call site updates after it.\<close>

definition save_page :: "surroundings \<Rightarrow> string \<Rightarrow> AmazonHTMLScraper \<Rightarrow> AmazonHTMLScraper" where
  "save_page env page_label s =
     (case save_html_to_single_file (view (browser s)) (stamps env (total_pages s))
             (output_file s) page_label of
        (size_written, content) \<Rightarrow>
          s\<lparr>output_file := content,
            total_pages := total_pages s + 1,
            total_bytes := total_bytes s + size_written,
            saved := saved s @ [(page_label, view (browser s), stamps env (total_pages s))]\<rparr>)"

text \<open>\<open>_find_next_page_button\<close>: the first fallback selector that finds a displayed
  element.\<close>

fun first_displayed :: "web_page \<Rightarrow> (string \<times> string) list \<Rightarrow> element option" where
  "first_displayed pg [] = None"
| "first_displayed pg ((kind, selector) # fallbacks) =
     (case (if kind = ''xpath'' then by_xpath pg selector else by_css pg selector) of
        None \<Rightarrow> first_displayed pg fallbacks
      | Some el \<Rightarrow> if displayed el then Some el else first_displayed pg fallbacks)"

definition find_next_page_button :: "browser \<Rightarrow> element option" where
  "find_next_page_button b = first_displayed (shown b) NEXT_PAGE_FALLBACKS"

definition is_blocked_or_redirected :: "browser \<Rightarrow> bool" where
  "is_blocked_or_redirected b =
     (if str_in ''/errors/validateCaptcha'' (location b) \<or> str_in ''captcha'' (lower (location b))
      then True
      else if str_in ''/ap/signin'' (location b) then True
      else False)"

text \<open>
  \<open>_click_next_page\<close>: the URL before the click, \<open>None\<close> when the element cannot be
  clicked, or the exception of the direct navigation, which nothing catches.
\<close>

definition click_next_page :: "surroundings \<Rightarrow> element \<Rightarrow> AmazonHTMLScraper
    \<Rightarrow> (py_exception + string option) \<times> AmazonHTMLScraper" where
  "click_next_page env el s =
     (let s1 = sleep 1 (s\<lparr>browser :=
                 scroll_to (top_y el - inner_height (browser s) div 2) (browser s)\<rparr>);
          s2 = random_wait env ''before clicking Next'' s1;
          pre_click_url = location (browser s2);
          next_href = href el;
          clicked = (\<lambda>target. (Inr (Some pre_click_url),
                      s2\<lparr>browser := follow target (browser s2),
                         events := events s2 @ [Clicked]\<rparr>))
      in case js_click el of
           ClickGoes target \<Rightarrow> clicked target
         | ClickRaises \<Rightarrow>
             (case native_click el of
                ClickGoes target \<Rightarrow> clicked target
              | ClickRaises \<Rightarrow>
                  (case next_href of
                     None \<Rightarrow> (Inr None, s2)
                   | Some h \<Rightarrow>
                       if h = [] then (Inr None, s2)
                       else (case get h (browser s2) of
                               None \<Rightarrow> (Inl TimeoutException, s2)
                             | Some b \<Rightarrow>
                                 (Inr (Some pre_click_url),
                                  s2\<lparr>browser := b, events := events s2 @ [Loaded h]\<rparr>)))))"

definition looks_like_last_page :: "driver_state \<Rightarrow> bool" where
  "looks_like_last_page d =
     (let source = lower (page_source d) in
      if str_in ''there are no customer reviews'' source \<or> str_in ''no reviews'' (take 5000 source)
      then True
      else if str_in ''page not found'' (lower (title d)) \<or> str_in ''404'' (lower (title d))
      then True
      else False)"

text \<open>
  One turn of the pagination loop, steps A to F: the loop stops (with the exception that
  leaves it, if any), or the next page has been saved and the loop goes on.
  \<open>_log_review_count\<close> only writes to the log and is left out.
\<close>

datatype turn = Stop "py_exception option" AmazonHTMLScraper | Advance AmazonHTMLScraper

definition save_next :: "surroundings \<Rightarrow> nat \<Rightarrow> AmazonHTMLScraper \<Rightarrow> turn" where
  "save_next env page_number s =
     (if looks_like_last_page (view (browser s)) then Stop None s
      else Advance (save_page env (''reviews_page_'' @ str_nat page_number) s))"

definition review_turn :: "surroundings \<Rightarrow> nat \<Rightarrow> AmazonHTMLScraper \<Rightarrow> turn" where
  "review_turn env page_number s =
     (case human_scroll env (Some NEXT_PAGE_XPATH) True s of
        (scrolled, s1) \<Rightarrow>
          (case (case scrolled of
                   Some el \<Rightarrow> Some el
                 | None \<Rightarrow> find_next_page_button (browser s1)) of
             None \<Rightarrow> Stop None s1
           | Some next_el \<Rightarrow>
               if is_blocked_or_redirected (browser s1) then Stop None s1
               else (case click_next_page env next_el s1 of
                       (Inl e, s2) \<Rightarrow> Stop (Some e) s2
                     | (Inr None, s2) \<Rightarrow> Stop None s2
                     | (Inr (Some next_href), s2) \<Rightarrow>
                         let s3 = random_wait env ''page load'' s2 in
                         if location (browser s3) = next_href
                         then (let s4 = sleep 3 s3 in
                               if location (browser s4) = next_href then Stop None s4
                               else save_next env (page_number + 1) s4)
                         else save_next env (page_number + 1) s3)))"

function review_loop :: "surroundings \<Rightarrow> nat \<Rightarrow> AmazonHTMLScraper
    \<Rightarrow> py_exception option \<times> AmazonHTMLScraper" where
  "review_loop env page_number s =
     (if page_number < MAX_REVIEW_PAGES
      then (case review_turn env page_number s of
              Stop r s' \<Rightarrow> (r, s')
            | Advance s' \<Rightarrow> review_loop env (page_number + 1) s')
      else (None, s))"
  by pat_completeness auto
termination
  by (relation "measure (\<lambda>(env, page_number, s). MAX_REVIEW_PAGES - page_number)") auto

declare review_loop.simps [simp del]

text \<open>\<open>scrape_product_to_reviews\<close>: \<open>True\<close>, \<open>False\<close>, or the exception that leaves
  it, and the scraper after the call.\<close>

definition scrape_product_to_reviews :: "surroundings \<Rightarrow> string \<Rightarrow> AmazonHTMLScraper
    \<Rightarrow> (py_exception + bool) \<times> AmazonHTMLScraper" where
  "scrape_product_to_reviews env product_url s =
     (case get product_url (browser s) of
        None \<Rightarrow> (Inr False, s)
      | Some b1 \<Rightarrow>
          let s1 = random_wait env ''page load''
                     (s\<lparr>browser := b1, events := events s @ [Loaded product_url]\<rparr>)
          in if fst (check_for_blocks (view (browser s1))) then (Inr False, s1)
             else
               let s2 = save_page env ''product_page'' s1 in
               case human_scroll env (Some SEE_MORE_REVIEWS_XPATH) True s2 of
                 (scrolled, s3) \<Rightarrow>
                   (case (case scrolled of
                            Some el \<Rightarrow> Some el
                          | None \<Rightarrow> by_css (shown (browser s3)) SEE_MORE_REVIEWS_CSS) of
                      None \<Rightarrow> (Inr False, s3)
                    | Some see_more \<Rightarrow>
                        let s4 = random_wait env ''before navigation'' s3 in
                        (case href see_more of
                           None \<Rightarrow> (Inl AttributeError, s4)
                         | Some h \<Rightarrow>
                             let target = (if startswith h ''/''
                                           then ''https://www.amazon.in'' @ h else h)
                             in case get target (browser s4) of
                                  None \<Rightarrow> (Inl TimeoutException, s4)
                                | Some b5 \<Rightarrow>
                                    let s5 = random_wait env ''reviews page load''
                                               (s4\<lparr>browser := b5,
                                                   events := events s4 @ [Loaded target]\<rparr>)
                                    in if fst (check_for_blocks (view (browser s5)))
                                       then (Inr False, s5)
                                       else
                                         let s6 = snd (human_scroll env None False s5);
                                             s7 = sleep 1
                                                    (s6\<lparr>browser := scroll_to 0 (browser s6)\<rparr>);
                                             s8 = save_page env ''reviews_page_1'' s7
                                         in case review_loop env 1 s8 of
                                              (Some e, s9) \<Rightarrow> (Inl e, s9)
                                            | (None, s9) \<Rightarrow> (Inr True, s9))))"

subsection \<open>Scrolling stays on the page\<close>

text \<open>Two scraper states that differ in the scroll position and the number of draws
  only.\<close>

definition kept :: "AmazonHTMLScraper \<Rightarrow> AmazonHTMLScraper \<Rightarrow> bool" where
  "kept s s' =
     (site (browser s') = site (browser s) \<and> location (browser s') = location (browser s)
      \<and> shown (browser s') = shown (browser s)
      \<and> inner_height (browser s') = inner_height (browser s)
      \<and> output_file s' = output_file s \<and> total_pages s' = total_pages s
      \<and> total_bytes s' = total_bytes s \<and> saved s' = saved s \<and> events s' = events s)"

lemma kept_refl: "kept s s"
  by (simp add: kept_def)

lemma kept_trans: "kept s s' \<Longrightarrow> kept s' s'' \<Longrightarrow> kept s s''"
  by (simp add: kept_def)

lemma kept_draw: "draw env s = (r, s') \<Longrightarrow> kept s s'"
  by (auto simp: draw_def kept_def)

lemma kept_snd_draw: "kept s (snd (draw env s))"
  by (simp add: draw_def kept_def)

lemma kept_randint: "randint env a b s = (x, s') \<Longrightarrow> kept s s'"
  by (auto simp: randint_def draw_def kept_def)

lemma kept_scroll_to: "kept s (s\<lparr>browser := scroll_to pos (browser s)\<rparr>)"
  by (simp add: kept_def scroll_to_def)

lemma human_scroll_loop_kept:
  "human_scroll_loop env t st vh pos s = (r, s') \<Longrightarrow>
     kept s s' \<and> (r = None \<or> (\<exists>x. t = Some x \<and> by_xpath (shown (browser s)) x = r))"
proof (induction env t st vh pos s arbitrary: r s' rule: human_scroll_loop.induct)
  case (1 env t st vh pos s)
  show ?case
  proof (cases "pos < scroll_height (shown (browser s)) - vh")
    case False
    with "1.prems" show ?thesis
      by (simp add: human_scroll_loop.simps [of env t st vh pos s] kept_refl)
  next
    case True
    obtain amount s1 where ri: "randint env 300 500 s = (amount, s1)"
      by (cases "randint env 300 500 s") auto
    let ?pos1 = "pos + amount"
    let ?s2 = "s1\<lparr>browser := scroll_to ?pos1 (browser s1)\<rparr>"
    let ?s3 = "snd (draw env ?s2)"
    let ?found = "(case t of
                            None \<Rightarrow> None
                          | Some x \<Rightarrow>
                              if st
                              then (case by_xpath (shown (browser ?s3)) x of
                                      None \<Rightarrow> None
                                    | Some e \<Rightarrow>
                                        if is_element_in_viewport (browser ?s3) e
                                        then Some e else None)
                              else None)"
    have k3: "kept s ?s3"
      using kept_randint [OF ri] kept_scroll_to [of s1 ?pos1] kept_snd_draw [of ?s2 env]
      by (blast intro: kept_trans)
    show ?thesis
    proof (cases ?found)
      case (Some e)
      with "1.prems" True ri have res: "r = Some e" "s' = ?s3"
        by (simp_all add: human_scroll_loop.simps [of env t st vh pos s] Let_def)
      from Some obtain x where "t = Some x" "by_xpath (shown (browser ?s3)) x = Some e"
        by (auto split: option.splits if_splits)
      with k3 have "t = Some x \<and> by_xpath (shown (browser s)) x = r"
        using res by (simp add: kept_def)
      with k3 res show ?thesis
        by blast
    next
      case None
      obtain r4 s4 where d4: "draw env ?s3 = (r4, s4)"
        by (cases "draw env ?s3") auto
      have k4: "kept s s4"
        using k3 kept_draw [OF d4] by (rule kept_trans)
      show ?thesis
      proof (cases "r4 mod 10 = 0")
        case zero: True
        obtain bk s5 where rb: "randint env 30 80 s4 = (bk, s5)"
          by (cases "randint env 30 80 s4") auto
        let ?pos2 = "max 0 (?pos1 - bk)"
        let ?s6 = "s5\<lparr>browser := scroll_to ?pos2 (browser s5)\<rparr>"
        have k6: "kept s ?s6"
          using k4 kept_randint [OF rb] kept_scroll_to [of s5 ?pos2]
          by (blast intro: kept_trans)
        from "1.prems" True ri None d4 zero rb
        have "human_scroll_loop env t st vh ?pos2 ?s6 = (r, s')"
          by (simp add: human_scroll_loop.simps [of env t st vh pos s] Let_def)
        from "1.IH"(1) [OF True ri [symmetric] refl refl refl refl None d4 [symmetric] zero
            rb [symmetric] refl this]
        have "kept ?s6 s' \<and> (r = None \<or> (\<exists>x. t = Some x \<and> by_xpath (shown (browser ?s6)) x = r))" .
        with k6 show ?thesis
          by (auto simp: kept_def)
      next
        case nonzero: False
        from "1.prems" True ri None d4 nonzero
        have "human_scroll_loop env t st vh ?pos1 s4 = (r, s')"
          by (simp add: human_scroll_loop.simps [of env t st vh pos s] Let_def)
        from "1.IH"(2) [OF True ri [symmetric] refl refl refl refl None d4 [symmetric] nonzero
            this]
        have "kept s4 s' \<and> (r = None \<or> (\<exists>x. t = Some x \<and> by_xpath (shown (browser s4)) x = r))" .
        with k4 show ?thesis
          by (auto simp: kept_def)
      qed
    qed
  qed
qed

lemma human_scroll_kept:
  "human_scroll env t st s = (r, s') \<Longrightarrow>
     kept s s' \<and> (r = None \<or> (\<exists>x. t = Some x \<and> by_xpath (shown (browser s)) x = r))"
  unfolding human_scroll_def by (rule human_scroll_loop_kept)

subsection \<open>One turn of the loop\<close>

text \<open>The elements that a turn can take for the "next" link of a page: what the
  scroll finds through the primary XPath, and what the fallback selectors find.\<close>

definition next_candidate :: "web_page \<Rightarrow> element \<Rightarrow> bool" where
  "next_candidate pg e =
     (by_xpath pg NEXT_PAGE_XPATH = Some e \<or> first_displayed pg NEXT_PAGE_FALLBACKS = Some e)"

text \<open>The element that steps A and B of a turn settle on.\<close>

definition find_next :: "surroundings \<Rightarrow> AmazonHTMLScraper \<Rightarrow> element option \<times> AmazonHTMLScraper" where
  "find_next env s =
     (case human_scroll env (Some NEXT_PAGE_XPATH) True s of
        (scrolled, s1) \<Rightarrow>
          ((case scrolled of
              Some el \<Rightarrow> Some el
            | None \<Rightarrow> find_next_page_button (browser s1)), s1))"

lemma find_next_kept:
  assumes "find_next env s = (r, s1)"
  shows "kept s s1"
    and "r = None \<or> (\<exists>e. r = Some e \<and> next_candidate (shown (browser s)) e)"
    and "first_displayed (shown (browser s)) NEXT_PAGE_FALLBACKS \<noteq> None \<Longrightarrow> r \<noteq> None"
    and "by_xpath (shown (browser s)) NEXT_PAGE_XPATH = None \<Longrightarrow>
         first_displayed (shown (browser s)) NEXT_PAGE_FALLBACKS = None \<Longrightarrow> r = None"
proof -
  obtain scrolled where h: "human_scroll env (Some NEXT_PAGE_XPATH) True s = (scrolled, s1)"
    and r: "r = (case scrolled of Some el \<Rightarrow> Some el
                 | None \<Rightarrow> find_next_page_button (browser s1))"
    using assms by (auto simp: find_next_def split: prod.splits)
  from human_scroll_kept [OF h] have k: "kept s s1"
    and sc: "scrolled = None \<or> by_xpath (shown (browser s)) NEXT_PAGE_XPATH = scrolled"
    by auto
  from k have sh: "shown (browser s1) = shown (browser s)"
    by (simp add: kept_def)
  show "kept s s1"
    by (rule k)
  show "r = None \<or> (\<exists>e. r = Some e \<and> next_candidate (shown (browser s)) e)"
    using r sc sh
    by (cases scrolled) (auto simp: next_candidate_def find_next_page_button_def)
  show "first_displayed (shown (browser s)) NEXT_PAGE_FALLBACKS \<noteq> None \<Longrightarrow> r \<noteq> None"
    using r sh by (cases scrolled) (auto simp: find_next_page_button_def)
  show "by_xpath (shown (browser s)) NEXT_PAGE_XPATH = None \<Longrightarrow>
         first_displayed (shown (browser s)) NEXT_PAGE_FALLBACKS = None \<Longrightarrow> r = None"
    using r sc sh by (cases scrolled) (auto simp: find_next_page_button_def)
qed

lemma review_turn_find_next:
  "review_turn env page_number s =
     (case find_next env s of
        (None, s1) \<Rightarrow> Stop None s1
      | (Some next_el, s1) \<Rightarrow>
               if is_blocked_or_redirected (browser s1) then Stop None s1
               else (case click_next_page env next_el s1 of
                       (Inl e, s2) \<Rightarrow> Stop (Some e) s2
                     | (Inr None, s2) \<Rightarrow> Stop None s2
                     | (Inr (Some next_href), s2) \<Rightarrow>
                         let s3 = random_wait env ''page load'' s2 in
                         if location (browser s3) = next_href
                         then (let s4 = sleep 3 s3 in
                               if location (browser s4) = next_href then Stop None s4
                               else save_next env (page_number + 1) s4)
                         else save_next env (page_number + 1) s3))"
  by (simp add: review_turn_def find_next_def split: prod.splits option.splits)

text \<open>The waits change neither the browser nor the file.\<close>

lemma random_wait_fields:
  "browser (random_wait env reason s) = browser s"
  "output_file (random_wait env reason s) = output_file s"
  "total_pages (random_wait env reason s) = total_pages s"
  "total_bytes (random_wait env reason s) = total_bytes s"
  "saved (random_wait env reason s) = saved s"
  "events (random_wait env reason s) = events s @ [Waited reason]"
  by (simp_all add: random_wait_def draw_def)

lemma sleep_fields:
  "browser (sleep n s) = browser s"
  "output_file (sleep n s) = output_file s"
  "total_pages (sleep n s) = total_pages s"
  "total_bytes (sleep n s) = total_bytes s"
  "saved (sleep n s) = saved s"
  "events (sleep n s) = events s @ [Slept n]"
  by (simp_all add: sleep_def)

lemma save_page_fields:
  "browser (save_page env l s) = browser s"
  "output_file (save_page env l s)
     = write_page (output_file s) (l, view (browser s), stamps env (total_pages s))"
  "total_pages (save_page env l s) = total_pages s + 1"
  "saved (save_page env l s) = saved s @ [(l, view (browser s), stamps env (total_pages s))]"
  "events (save_page env l s) = events s"
  by (simp_all add: save_page_def write_page_def save_html_to_single_file_def Let_def)

text \<open>The scraper's browser shows page \<open>pg\<close> of site \<open>S\<close> at URL \<open>u\<close>.\<close>

definition showing :: "(string \<Rightarrow> (string \<times> web_page) option) \<Rightarrow> string \<Rightarrow> web_page
    \<Rightarrow> AmazonHTMLScraper \<Rightarrow> bool" where
  "showing S u pg s =
     (site (browser s) = S \<and> location (browser s) = u \<and> shown (browser s) = pg)"

definition blocked_url :: "string \<Rightarrow> bool" where
  "blocked_url u =
     (str_in ''/errors/validateCaptcha'' u \<or> str_in ''captcha'' (lower u)
      \<or> str_in ''/ap/signin'' u)"

text \<open>
  On site \<open>S\<close>, \<open>_click_next_page\<close> on element \<open>e\<close> ends on the page \<open>pg'\<close> at URL \<open>v\<close>,
  whichever of its three ways gets there: the click through the script goes to a URL
  that loads as \<open>pg'\<close> at \<open>v\<close>; or it raises and the native click does; or both raise
  and the \<open>href\<close> of the element is not empty and loads as \<open>pg'\<close> at \<open>v\<close>.
\<close>

definition click_reaches :: "(string \<Rightarrow> (string \<times> web_page) option) \<Rightarrow> element
    \<Rightarrow> string \<Rightarrow> web_page \<Rightarrow> bool" where
  "click_reaches S e v pg' =
     (case js_click e of
        ClickGoes target \<Rightarrow>
          (case target of None \<Rightarrow> False | Some t \<Rightarrow> S t = Some (v, pg'))
      | ClickRaises \<Rightarrow>
          (case native_click e of
             ClickGoes target \<Rightarrow>
               (case target of None \<Rightarrow> False | Some t \<Rightarrow> S t = Some (v, pg'))
           | ClickRaises \<Rightarrow>
               (case href e of
                  None \<Rightarrow> False
                | Some h \<Rightarrow> h \<noteq> [] \<and> S h = Some (v, pg'))))"

text \<open>
  Page \<open>pg\<close> at URL \<open>u\<close> has a "next" link to the page \<open>pg'\<close> at URL \<open>v\<close>: a fallback
  selector finds a displayed element, the click on every element that a turn can take
  for the link ends on \<open>pg'\<close> at \<open>v\<close>, the URL changes, the turn is not stopped by the
  URL check, and the last-page heuristic does not fire on \<open>pg'\<close>.
\<close>

definition serves_next :: "(string \<Rightarrow> (string \<times> web_page) option) \<Rightarrow> string \<Rightarrow> web_page
    \<Rightarrow> string \<Rightarrow> web_page \<Rightarrow> bool" where
  "serves_next S u pg v pg' =
     (first_displayed pg NEXT_PAGE_FALLBACKS \<noteq> None
      \<and> (\<forall>e. next_candidate pg e \<longrightarrow> click_reaches S e v pg')
      \<and> v \<noteq> u \<and> \<not> blocked_url u \<and> \<not> looks_like_last_page (page_view v pg'))"

text \<open>Page \<open>pg\<close> has no "next" link: neither the primary XPath nor a fallback selector
  finds an element to take.\<close>

definition no_next_link :: "web_page \<Rightarrow> bool" where
  "no_next_link pg =
     (by_xpath pg NEXT_PAGE_XPATH = None \<and> first_displayed pg NEXT_PAGE_FALLBACKS = None)"

lemma is_blocked_or_redirected_url: "is_blocked_or_redirected b = blocked_url (location b)"
  by (auto simp: is_blocked_or_redirected_def blocked_url_def)

lemma click_reaches_page:
  assumes "click_reaches (site (browser s1)) e v pg'"
  shows "\<exists>s2. click_next_page env e s1 = (Inr (Some (location (browser s1))), s2)
           \<and> showing (site (browser s1)) v pg' s2
           \<and> output_file s2 = output_file s1 \<and> total_pages s2 = total_pages s1
           \<and> saved s2 = saved s1"
proof -
  define s2 where "s2 = random_wait env ''before clicking Next''
     (sleep 1 (s1\<lparr>browser := scroll_to (top_y e - inner_height (browser s1) div 2) (browser s1)\<rparr>))"
  have b: "site (browser s2) = site (browser s1)" "location (browser s2) = location (browser s1)"
    and f: "output_file s2 = output_file s1" "total_pages s2 = total_pages s1"
      "saved s2 = saved s1"
    by (simp_all add: s2_def random_wait_fields sleep_fields scroll_to_def)
  have run: "click_next_page env e s1 =
        (case js_click e of
           ClickGoes target \<Rightarrow>
             (Inr (Some (location (browser s2))),
              s2\<lparr>browser := follow target (browser s2), events := events s2 @ [Clicked]\<rparr>)
         | ClickRaises \<Rightarrow>
             (case native_click e of
                ClickGoes target \<Rightarrow>
                  (Inr (Some (location (browser s2))),
                   s2\<lparr>browser := follow target (browser s2), events := events s2 @ [Clicked]\<rparr>)
              | ClickRaises \<Rightarrow>
                  (case href e of
                     None \<Rightarrow> (Inr None, s2)
                   | Some h \<Rightarrow>
                       if h = [] then (Inr None, s2)
                       else (case get h (browser s2) of
                               None \<Rightarrow> (Inl TimeoutException, s2)
                             | Some b \<Rightarrow>
                                 (Inr (Some (location (browser s2))),
                                  s2\<lparr>browser := b, events := events s2 @ [Loaded h]\<rparr>)))))"
    unfolding click_next_page_def Let_def s2_def by (rule refl)
  let ?b = "(browser s2)\<lparr>location := v, shown := pg', scroll_y := 0\<rparr>"
  have load: "get t (browser s2) = Some ?b" "follow (Some t) (browser s2) = ?b"
    if "site (browser s1) t = Some (v, pg')" for t
    using that b by (simp_all add: get_def follow_def)
  have reached: ?thesis
    if "click_next_page env e s1 = (Inr (Some (location (browser s2))), s2\<lparr>browser := ?b, events := evs\<rparr>)"
    for evs
  proof -
    have "showing (site (browser s1)) v pg' (s2\<lparr>browser := ?b, events := evs\<rparr>)"
      using b by (simp add: showing_def)
    with that b f show ?thesis
      by simp
  qed
  show ?thesis
  proof (cases "js_click e")
    case (ClickGoes target)
    with assms obtain t where "target = Some t" "site (browser s1) t = Some (v, pg')"
      by (cases target) (simp_all add: click_reaches_def)
    with ClickGoes load(2) [of t] show ?thesis
      by (intro reached [of "events s2 @ [Clicked]"]) (simp add: run)
  next
    case ClickRaises
    note js = this
    show ?thesis
    proof (cases "native_click e")
      case (ClickGoes target)
      with assms js obtain t where "target = Some t" "site (browser s1) t = Some (v, pg')"
        by (cases target) (simp_all add: click_reaches_def)
      with ClickGoes js load(2) [of t] show ?thesis
        by (intro reached [of "events s2 @ [Clicked]"]) (simp add: run)
    next
      case ClickRaises
      with assms js obtain h where "href e = Some h" "h \<noteq> []"
        "site (browser s1) h = Some (v, pg')"
        by (cases "href e") (simp_all add: click_reaches_def)
      with ClickRaises js load(1) [of h] show ?thesis
        by (intro reached [of "events s2 @ [Loaded h]"]) (simp add: run)
    qed
  qed
qed

lemma click_goes:
  assumes "js_click e = ClickGoes (Some t)" and "site (browser s1) t = Some (v, pg')"
  shows "\<exists>s2. click_next_page env e s1 = (Inr (Some (location (browser s1))), s2)
           \<and> showing (site (browser s1)) v pg' s2
           \<and> output_file s2 = output_file s1 \<and> total_pages s2 = total_pages s1
           \<and> saved s2 = saved s1"
  using assms by (intro click_reaches_page) (simp add: click_reaches_def)

lemma review_turn_advance:
  assumes at: "showing S u pg s" and nxt: "serves_next S u pg v pg'"
  shows "\<exists>s'. review_turn env n s = Advance s' \<and> showing S v pg' s'
           \<and> output_file s' = write_page (output_file s)
                 (''reviews_page_'' @ str_nat (n + 1), page_view v pg', stamps env (total_pages s))
           \<and> total_pages s' = total_pages s + 1
           \<and> saved s' = saved s @
                 [(''reviews_page_'' @ str_nat (n + 1), page_view v pg',
                   stamps env (total_pages s))]"
proof -
  obtain r s1 where f: "find_next env s = (r, s1)"
    by (cases "find_next env s") auto
  note k = find_next_kept [OF f]
  from at have pg: "shown (browser s) = pg" and S: "site (browser s) = S"
    and u: "location (browser s) = u"
    by (simp_all add: showing_def)
  from nxt have
    has: "first_displayed pg NEXT_PAGE_FALLBACKS \<noteq> None"
    and goes: "\<forall>e. next_candidate pg e \<longrightarrow> click_reaches S e v pg'"
    and vu: "v \<noteq> u" and nb: "\<not> blocked_url u"
    and nl: "\<not> looks_like_last_page (page_view v pg')"
    by (auto simp: serves_next_def)
  from k(2,3) has pg obtain e where e: "r = Some e" "next_candidate pg e"
    by auto
  from k(1) S u have s1: "site (browser s1) = S" "location (browser s1) = u"
    "output_file s1 = output_file s" "total_pages s1 = total_pages s" "saved s1 = saved s"
    by (simp_all add: kept_def)
  from e goes s1 have "click_reaches (site (browser s1)) e v pg'"
    by simp
  from click_reaches_page [OF this, of env] s1 obtain s2 where
    c: "click_next_page env e s1 = (Inr (Some u), s2)" "showing S v pg' s2"
      "output_file s2 = output_file s" "total_pages s2 = total_pages s" "saved s2 = saved s"
    by auto
  let ?s3 = "random_wait env ''page load'' s2"
  let ?s' = "save_page env (''reviews_page_'' @ str_nat (n + 1)) ?s3"
  from c(2) have b3: "browser ?s3 = browser s2" "location (browser s2) = v"
    "shown (browser s2) = pg'" "site (browser s2) = S"
    by (simp_all add: random_wait_fields showing_def)
  then have v3: "view (browser ?s3) = page_view v pg'"
    by (simp add: view_def)
  have "review_turn env n s = save_next env (n + 1) ?s3"
    using f e c(1) s1 nb vu b3
    by (simp add: review_turn_find_next is_blocked_or_redirected_url Let_def)
  also have "\<dots> = Advance ?s'"
    using nl v3 by (simp add: save_next_def)
  finally have "review_turn env n s = Advance ?s'" .
  moreover have "showing S v pg' ?s'"
    using b3 by (simp add: showing_def save_page_fields)
  moreover have "output_file ?s' = write_page (output_file s)
      (''reviews_page_'' @ str_nat (n + 1), page_view v pg', stamps env (total_pages s))"
    using v3 c by (simp add: save_page_fields random_wait_fields)
  moreover have "total_pages ?s' = total_pages s + 1"
    using c by (simp add: save_page_fields random_wait_fields)
  moreover have "saved ?s' = saved s @
      [(''reviews_page_'' @ str_nat (n + 1), page_view v pg', stamps env (total_pages s))]"
    using v3 c by (simp add: save_page_fields random_wait_fields)
  ultimately show ?thesis
    by blast
qed

lemma review_turn_no_next:
  assumes at: "showing S u pg s" and none: "no_next_link pg"
  shows "\<exists>s'. review_turn env n s = Stop None s' \<and> kept s s'"
proof -
  obtain r s1 where f: "find_next env s = (r, s1)"
    by (cases "find_next env s") auto
  note k = find_next_kept [OF f]
  from at none have "by_xpath (shown (browser s)) NEXT_PAGE_XPATH = None"
    "first_displayed (shown (browser s)) NEXT_PAGE_FALLBACKS = None"
    by (simp_all add: showing_def no_next_link_def)
  with k(4) have "r = None"
    by simp
  with f have "review_turn env n s = Stop None s1"
    by (simp add: review_turn_find_next)
  with k(1) show ?thesis
    by blast
qed

lemma review_loop_advance:
  assumes "n < MAX_REVIEW_PAGES" and "showing S u pg s" and "serves_next S u pg v pg'"
  shows "\<exists>s'. review_loop env n s = review_loop env (n + 1) s' \<and> showing S v pg' s'
           \<and> output_file s' = write_page (output_file s)
                 (''reviews_page_'' @ str_nat (n + 1), page_view v pg', stamps env (total_pages s))
           \<and> total_pages s' = total_pages s + 1
           \<and> saved s' = saved s @
                 [(''reviews_page_'' @ str_nat (n + 1), page_view v pg',
                   stamps env (total_pages s))]"
proof -
  from review_turn_advance [OF assms(2,3), of env n] obtain s' where
    t: "review_turn env n s = Advance s'" and rest: "showing S v pg' s'"
      "output_file s' = write_page (output_file s)
         (''reviews_page_'' @ str_nat (n + 1), page_view v pg', stamps env (total_pages s))"
      "total_pages s' = total_pages s + 1"
      "saved s' = saved s @
         [(''reviews_page_'' @ str_nat (n + 1), page_view v pg', stamps env (total_pages s))]"
    by blast
  from assms(1) t have "review_loop env n s = review_loop env (n + 1) s'"
    by (simp add: review_loop.simps [of env n s])
  with rest show ?thesis
    by blast
qed

lemma review_loop_no_next:
  assumes "showing S u pg s" and "no_next_link pg"
  shows "\<exists>s'. review_loop env n s = (None, s') \<and> kept s s'"
proof (cases "n < MAX_REVIEW_PAGES")
  case True
  from review_turn_no_next [OF assms, of env n] obtain s' where
    "review_turn env n s = Stop None s'" "kept s s'"
    by blast
  with True show ?thesis
    by (simp add: review_loop.simps [of env n s])
next
  case False
  then show ?thesis
    by (simp add: review_loop.simps [of env n s] kept_refl)
qed

subsection \<open>From the product page to the last reviews page\<close>

text \<open>The product page \<open>pg\<close> has a "see all reviews" link with the \<open>href\<close> \<open>h\<close>: the CSS
  selector finds an element, and every element that the scroll or the CSS lookup can
  return has this \<open>href\<close>.\<close>

definition see_more_link :: "web_page \<Rightarrow> string \<Rightarrow> bool" where
  "see_more_link pg h =
     (by_css pg SEE_MORE_REVIEWS_CSS \<noteq> None
      \<and> (\<forall>e. by_xpath pg SEE_MORE_REVIEWS_XPATH = Some e \<or> by_css pg SEE_MORE_REVIEWS_CSS = Some e
             \<longrightarrow> href e = Some h))"

text \<open>The URL that step 3 navigates to.\<close>

definition absolute :: "string \<Rightarrow> string" where
  "absolute h = (if startswith h ''/'' then ''https://www.amazon.in'' @ h else h)"

lemma str_nat_small: "str_nat 2 = ''2''" "str_nat 3 = ''3''" "str_nat 4 = ''4''"
  by code_simp+

lemma max_pages: "1 < MAX_REVIEW_PAGES" "2 < MAX_REVIEW_PAGES" "3 < MAX_REVIEW_PAGES"
  by (simp_all add: MAX_REVIEW_PAGES_def)

lemma showing_kept: "kept s s' \<Longrightarrow> showing S u pg s \<Longrightarrow> showing S u pg s'"
  by (simp add: kept_def showing_def)

lemma first_reviews_page:
  assumes S: "site (browser s) = S"
    and product: "S product_url = Some (u0, pg0)"
      "\<not> fst (check_for_blocks (page_view u0 pg0))"
    and link: "see_more_link pg0 h"
    and reviews: "S (absolute h) = Some (u1, pg1)"
      "\<not> fst (check_for_blocks (page_view u1 pg1))"
  shows "\<exists>s8. scrape_product_to_reviews env product_url s =
             (case review_loop env 1 s8 of
                (Some e, s9) \<Rightarrow> (Inl e, s9)
              | (None, s9) \<Rightarrow> (Inr True, s9))
           \<and> showing S u1 pg1 s8
           \<and> total_pages s8 = total_pages s + 2
           \<and> saved s8 = saved s @
                [(''product_page'', page_view u0 pg0, stamps env (total_pages s)),
                 (''reviews_page_1'', page_view u1 pg1, stamps env (total_pages s + 1))]
           \<and> output_file s8 = write_pages (output_file s)
                [(''product_page'', page_view u0 pg0, stamps env (total_pages s)),
                 (''reviews_page_1'', page_view u1 pg1, stamps env (total_pages s + 1))]"
proof -
  let ?b1 = "(browser s)\<lparr>location := u0, shown := pg0, scroll_y := 0\<rparr>"
  let ?s1 = "random_wait env ''page load''
               (s\<lparr>browser := ?b1, events := events s @ [Loaded product_url]\<rparr>)"
  let ?s2 = "save_page env ''product_page'' ?s1"
  have g1: "get product_url (browser s) = Some ?b1"
    using S product(1) by (simp add: get_def)
  have v1: "view (browser ?s1) = page_view u0 pg0"
    by (simp add: random_wait_fields view_def)
  have sh2: "showing S u0 pg0 ?s2"
    using S by (simp add: showing_def save_page_fields random_wait_fields)
  obtain scrolled s3 where
    hs: "human_scroll env (Some SEE_MORE_REVIEWS_XPATH) True ?s2 = (scrolled, s3)"
    by (cases "human_scroll env (Some SEE_MORE_REVIEWS_XPATH) True ?s2") auto
  from human_scroll_kept [OF hs] have k3: "kept ?s2 s3"
    and sc: "scrolled = None \<or> by_xpath (shown (browser ?s2)) SEE_MORE_REVIEWS_XPATH = scrolled"
    by auto
  from sh2 k3 have sh3: "showing S u0 pg0 s3"
    by (rule showing_kept [rotated])
  let ?el = "(case scrolled of
                Some el \<Rightarrow> Some el
              | None \<Rightarrow> by_css (shown (browser s3)) SEE_MORE_REVIEWS_CSS)"
  from link sc sh2 sh3 obtain e where e: "?el = Some e" "href e = Some h"
    by (cases scrolled) (auto simp: see_more_link_def showing_def)
  let ?s4 = "random_wait env ''before navigation'' s3"
  let ?b5 = "(browser ?s4)\<lparr>location := u1, shown := pg1, scroll_y := 0\<rparr>"
  let ?s5 = "random_wait env ''reviews page load''
               (?s4\<lparr>browser := ?b5, events := events ?s4 @ [Loaded (absolute h)]\<rparr>)"
  have g5: "get (absolute h) (browser ?s4) = Some ?b5"
    using sh3 reviews(1) by (simp add: get_def random_wait_fields showing_def)
  have v5: "view (browser ?s5) = page_view u1 pg1"
    by (simp add: random_wait_fields view_def)
  have sh5: "showing S u1 pg1 ?s5"
    using sh3 by (simp add: showing_def random_wait_fields)
  obtain r6 s6 where h6: "human_scroll env None False ?s5 = (r6, s6)"
    by (cases "human_scroll env None False ?s5") auto
  from human_scroll_kept [OF h6] have k6: "kept ?s5 s6"
    by simp
  let ?s7 = "sleep 1 (s6\<lparr>browser := scroll_to 0 (browser s6)\<rparr>)"
  let ?s8 = "save_page env ''reviews_page_1'' ?s7"
  from sh5 k6 have sh6: "showing S u1 pg1 s6"
    by (rule showing_kept [rotated])
  from k6 have f6: "total_pages s6 = total_pages ?s5" "saved s6 = saved ?s5"
    "output_file s6 = output_file ?s5"
    by (simp_all only: kept_def)
  have sh7: "showing S u1 pg1 ?s7"
    using sh6 by (simp add: showing_def sleep_fields scroll_to_def)
  then have v7: "view (browser ?s7) = page_view u1 pg1"
    by (simp add: showing_def view_def)
  have run: "scrape_product_to_reviews env product_url s =
             (case review_loop env 1 ?s8 of
                (Some e, s9) \<Rightarrow> (Inl e, s9)
              | (None, s9) \<Rightarrow> (Inr True, s9))"
    unfolding scrape_product_to_reviews_def g1
    using product(2) reviews(2) v1 v5 hs e g5 h6
    by (simp add: Let_def absolute_def)
  have tp2: "total_pages ?s2 = total_pages s + 1" "saved ?s2 = saved s @
      [(''product_page'', page_view u0 pg0, stamps env (total_pages s))]"
    "output_file ?s2 = write_page (output_file s)
      (''product_page'', page_view u0 pg0, stamps env (total_pages s))"
    using v1 by (simp_all add: save_page_fields random_wait_fields)
  from k3 have f3: "total_pages s3 = total_pages ?s2" "saved s3 = saved ?s2"
    "output_file s3 = output_file ?s2"
    by (simp_all add: kept_def)
  have f5: "total_pages ?s5 = total_pages s3" "saved ?s5 = saved s3"
    "output_file ?s5 = output_file s3"
    by (simp_all add: random_wait_fields)
  have f7: "total_pages ?s7 = total_pages ?s5" "saved ?s7 = saved ?s5"
    "output_file ?s7 = output_file ?s5"
    using f6 by (simp_all add: sleep_fields)
  have "showing S u1 pg1 ?s8"
    using sh7 by (simp add: showing_def save_page_fields)
  moreover have "total_pages ?s8 = total_pages s + 2"
  proof -
    have "total_pages ?s8 = total_pages ?s7 + 1"
      by (rule save_page_fields)
    then show ?thesis
      unfolding f7 f5 f3 tp2 by simp
  qed
  moreover have "saved ?s8 = saved s @
                [(''product_page'', page_view u0 pg0, stamps env (total_pages s)),
                 (''reviews_page_1'', page_view u1 pg1, stamps env (total_pages s + 1))]"
  proof -
    have "saved ?s8 = saved ?s7
        @ [(''reviews_page_1'', view (browser ?s7), stamps env (total_pages ?s7))]"
      by (rule save_page_fields)
    then show ?thesis
      unfolding v7 f7 f5 f3 tp2 by simp
  qed
  moreover have "output_file ?s8 = write_pages (output_file s)
                [(''product_page'', page_view u0 pg0, stamps env (total_pages s)),
                 (''reviews_page_1'', page_view u1 pg1, stamps env (total_pages s + 1))]"
  proof -
    have "output_file ?s8 = write_page (output_file ?s7)
        (''reviews_page_1'', view (browser ?s7), stamps env (total_pages ?s7))"
      by (rule save_page_fields)
    then show ?thesis
      unfolding v7 f7 f5 f3 tp2 by (simp add: write_pages_def)
  qed
  ultimately show ?thesis
    using run by blast
qed

lemma review_loop_advance_to:
  assumes "n < MAX_REVIEW_PAGES" and "showing S u pg s" and "serves_next S u pg v pg'"
    and "m = n + 1" and "''reviews_page_'' @ str_nat m = l"
    and "total_pages s = k" and "k' = k + 1"
  shows "\<exists>s'. review_loop env n s = review_loop env m s' \<and> showing S v pg' s'
           \<and> total_pages s' = k'
           \<and> saved s' = saved s @ [(l, page_view v pg', stamps env k)]
           \<and> output_file s' = write_page (output_file s) (l, page_view v pg', stamps env k)"
  using review_loop_advance [OF assms(1-3), of env] assms(4-7)
  by auto

text \<open>
  Claim C7. On a session whose product page loads unblocked and has a "see all reviews"
  link, whose first reviews page loads unblocked, whose reviews pages 1 to 3 each have a
  "next" link to the following page (reached by the script click, the native click or
  the load of the \<open>href\<close>; with a new URL, no captcha or login URL, and no last-page
  message on the page reached) and whose reviews page 4 has none,
  \<open>scrape_product_to_reviews\<close> returns \<open>True\<close>, and the output file after the call is the
  file before it followed by exactly five page blocks, labelled \<open>product_page\<close> and
  \<open>reviews_page_1\<close> to \<open>reviews_page_4\<close>, in this order. A page block is the text of
  \<open>page_block\<close>: two newlines, the rule of 80 equals signs, the lines \<open>PAGE:\<close>, \<open>URL:\<close>,
  \<open>TIMESTAMP:\<close> and \<open>SIZE:\<close>, the rule, two newlines, and the page source.
\<close>

theorem scrape_four_review_pages:
  assumes "site (browser s) = S"
    and "S product_url = Some (u0, pg0)"
    and "\<not> fst (check_for_blocks (page_view u0 pg0))"
    and "see_more_link pg0 h"
    and "S (absolute h) = Some (u1, pg1)"
    and "\<not> fst (check_for_blocks (page_view u1 pg1))"
    and "serves_next S u1 pg1 u2 pg2"
    and "serves_next S u2 pg2 u3 pg3"
    and "serves_next S u3 pg3 u4 pg4"
    and "no_next_link pg4"
  shows "fst (scrape_product_to_reviews env product_url s) = Inr True
    \<and> output_file (snd (scrape_product_to_reviews env product_url s)) =
         output_file s @ concat (map page_block
         [(''product_page'', page_view u0 pg0, stamps env (total_pages s)),
          (''reviews_page_1'', page_view u1 pg1, stamps env (total_pages s + 1)),
          (''reviews_page_2'', page_view u2 pg2, stamps env (total_pages s + 2)),
          (''reviews_page_3'', page_view u3 pg3, stamps env (total_pages s + 3)),
          (''reviews_page_4'', page_view u4 pg4, stamps env (total_pages s + 4))])
    \<and> saved (snd (scrape_product_to_reviews env product_url s)) = saved s @
         [(''product_page'', page_view u0 pg0, stamps env (total_pages s)),
          (''reviews_page_1'', page_view u1 pg1, stamps env (total_pages s + 1)),
          (''reviews_page_2'', page_view u2 pg2, stamps env (total_pages s + 2)),
          (''reviews_page_3'', page_view u3 pg3, stamps env (total_pages s + 3)),
          (''reviews_page_4'', page_view u4 pg4, stamps env (total_pages s + 4))]
    \<and> total_pages (snd (scrape_product_to_reviews env product_url s)) = total_pages s + 5"
proof -
  from first_reviews_page [OF assms(1-6), of env] obtain s1 where
    run: "scrape_product_to_reviews env product_url s =
             (case review_loop env 1 s1 of
                (Some e, s9) \<Rightarrow> (Inl e, s9)
              | (None, s9) \<Rightarrow> (Inr True, s9))"
    and sh1: "showing S u1 pg1 s1"
    and f1: "total_pages s1 = total_pages s + 2"
      "saved s1 = saved s @
                [(''product_page'', page_view u0 pg0, stamps env (total_pages s)),
                 (''reviews_page_1'', page_view u1 pg1, stamps env (total_pages s + 1))]"
      "output_file s1 = write_pages (output_file s)
                [(''product_page'', page_view u0 pg0, stamps env (total_pages s)),
                 (''reviews_page_1'', page_view u1 pg1, stamps env (total_pages s + 1))]"
    by blast
  have "\<exists>s2. review_loop env 1 s1 = review_loop env 2 s2 \<and> showing S u2 pg2 s2
      \<and> total_pages s2 = total_pages s + 3
      \<and> saved s2 = saved s1
          @ [(''reviews_page_2'', page_view u2 pg2, stamps env (total_pages s + 2))]
      \<and> output_file s2 = write_page (output_file s1)
          (''reviews_page_2'', page_view u2 pg2, stamps env (total_pages s + 2))"
    by (rule review_loop_advance_to [OF max_pages(1) sh1 assms(7) _ _ f1(1)])
      (simp_all add: str_nat_small)
  then obtain s2 where
    l1: "review_loop env 1 s1 = review_loop env 2 s2" and sh2: "showing S u2 pg2 s2"
    and f2: "total_pages s2 = total_pages s + 3"
      "saved s2 = saved s1 @ [(''reviews_page_2'', page_view u2 pg2, stamps env (total_pages s + 2))]"
      "output_file s2 = write_page (output_file s1)
         (''reviews_page_2'', page_view u2 pg2, stamps env (total_pages s + 2))"
    by blast
  have "\<exists>s3. review_loop env 2 s2 = review_loop env 3 s3 \<and> showing S u3 pg3 s3
      \<and> total_pages s3 = total_pages s + 4
      \<and> saved s3 = saved s2
          @ [(''reviews_page_3'', page_view u3 pg3, stamps env (total_pages s + 3))]
      \<and> output_file s3 = write_page (output_file s2)
          (''reviews_page_3'', page_view u3 pg3, stamps env (total_pages s + 3))"
    by (rule review_loop_advance_to [OF max_pages(2) sh2 assms(8) _ _ f2(1)])
      (simp_all add: str_nat_small)
  then obtain s3 where
    l2: "review_loop env 2 s2 = review_loop env 3 s3" and sh3: "showing S u3 pg3 s3"
    and f3: "total_pages s3 = total_pages s + 4"
      "saved s3 = saved s2 @ [(''reviews_page_3'', page_view u3 pg3, stamps env (total_pages s + 3))]"
      "output_file s3 = write_page (output_file s2)
         (''reviews_page_3'', page_view u3 pg3, stamps env (total_pages s + 3))"
    by blast
  have "\<exists>s4. review_loop env 3 s3 = review_loop env 4 s4 \<and> showing S u4 pg4 s4
      \<and> total_pages s4 = total_pages s + 5
      \<and> saved s4 = saved s3
          @ [(''reviews_page_4'', page_view u4 pg4, stamps env (total_pages s + 4))]
      \<and> output_file s4 = write_page (output_file s3)
          (''reviews_page_4'', page_view u4 pg4, stamps env (total_pages s + 4))"
    by (rule review_loop_advance_to [OF max_pages(3) sh3 assms(9) _ _ f3(1)])
      (simp_all add: str_nat_small)
  then obtain s4 where
    l3: "review_loop env 3 s3 = review_loop env 4 s4" and sh4: "showing S u4 pg4 s4"
    and f4: "saved s4 = saved s3 @ [(''reviews_page_4'', page_view u4 pg4, stamps env (total_pages s + 4))]"
      "output_file s4 = write_page (output_file s3)
         (''reviews_page_4'', page_view u4 pg4, stamps env (total_pages s + 4))"
    and t4: "total_pages s4 = total_pages s + 5"
    by blast
  from review_loop_no_next [OF sh4 assms(10), of env 4] obtain s5 where
    l4: "review_loop env 4 s4 = (None, s5)" and k5: "kept s4 s5"
    by blast
  from k5 have f5: "saved s5 = saved s4" "output_file s5 = output_file s4"
    and t5: "total_pages s5 = total_pages s4"
    by (simp_all add: kept_def)
  have res: "scrape_product_to_reviews env product_url s = (Inr True, s5)"
    unfolding run l1 l2 l3 l4 by simp
  have "saved s5 = saved s @
         [(''product_page'', page_view u0 pg0, stamps env (total_pages s)),
          (''reviews_page_1'', page_view u1 pg1, stamps env (total_pages s + 1)),
          (''reviews_page_2'', page_view u2 pg2, stamps env (total_pages s + 2)),
          (''reviews_page_3'', page_view u3 pg3, stamps env (total_pages s + 3)),
          (''reviews_page_4'', page_view u4 pg4, stamps env (total_pages s + 4))]"
    unfolding f5 f4 f3 f2 f1 by simp
  moreover have "output_file s5 = write_pages (output_file s)
         [(''product_page'', page_view u0 pg0, stamps env (total_pages s)),
          (''reviews_page_1'', page_view u1 pg1, stamps env (total_pages s + 1)),
          (''reviews_page_2'', page_view u2 pg2, stamps env (total_pages s + 2)),
          (''reviews_page_3'', page_view u3 pg3, stamps env (total_pages s + 3)),
          (''reviews_page_4'', page_view u4 pg4, stamps env (total_pages s + 4))]"
    unfolding f5 f4 f3 f2 f1 by (simp add: write_pages_def)
  then have "output_file s5 = output_file s @ concat (map page_block
         [(''product_page'', page_view u0 pg0, stamps env (total_pages s)),
          (''reviews_page_1'', page_view u1 pg1, stamps env (total_pages s + 1)),
          (''reviews_page_2'', page_view u2 pg2, stamps env (total_pages s + 2)),
          (''reviews_page_3'', page_view u3 pg3, stamps env (total_pages s + 3)),
          (''reviews_page_4'', page_view u4 pg4, stamps env (total_pages s + 4))])"
    by (simp only: write_pages_blocks)
  moreover have "total_pages s5 = total_pages s + 5"
    using t5 t4 by simp
  ultimately show ?thesis
    using res by simp
qed

subsection \<open>What a turn writes\<close>

lemma click_next_page_file:
  assumes "click_next_page env e s1 = (x, s2)"
  shows "saved s2 = saved s1 \<and> output_file s2 = output_file s1
           \<and> total_pages s2 = total_pages s1"
  using assms
  by (auto simp: click_next_page_def Let_def random_wait_fields sleep_fields
      split: click.splits option.splits if_splits)

lemma save_next_cases:
  "save_next env m s = Stop r s' \<Longrightarrow> s' = s"
  "save_next env m s = Advance s' \<Longrightarrow>
     \<not> looks_like_last_page (view (browser s))
     \<and> s' = save_page env (''reviews_page_'' @ str_nat m) s"
  by (auto simp: save_next_def split: if_splits)

lemma review_turn_shape:
  "(\<exists>r s0. review_turn env n s = Stop r s0 \<and> saved s0 = saved s
       \<and> output_file s0 = output_file s)
   \<or> (\<exists>s3. review_turn env n s = save_next env (n + 1) s3 \<and> saved s3 = saved s
       \<and> output_file s3 = output_file s)"
proof -
  obtain r1 s1 where f: "find_next env s = (r1, s1)"
    by (cases "find_next env s") auto
  from find_next_kept(1) [OF f] have k: "saved s1 = saved s" "output_file s1 = output_file s"
    by (simp_all add: kept_def)
  show ?thesis
  proof (cases r1)
    case None
    with f k show ?thesis
      by (simp add: review_turn_find_next)
  next
    case (Some e)
    show ?thesis
    proof (cases "is_blocked_or_redirected (browser s1)")
      case True
      with f k Some show ?thesis
        by (simp add: review_turn_find_next)
    next
      case False
      obtain x s2 where c: "click_next_page env e s1 = (x, s2)"
        by (cases "click_next_page env e s1") auto
      from click_next_page_file [OF c] k
      have k2: "saved s2 = saved s" "output_file s2 = output_file s"
        by simp_all
      let ?s3 = "random_wait env ''page load'' s2"
      let ?s4 = "sleep 3 ?s3"
      from k2 have k3: "saved ?s3 = saved s" "output_file ?s3 = output_file s"
        "saved ?s4 = saved s" "output_file ?s4 = output_file s"
        by (simp_all add: random_wait_fields sleep_fields)
      show ?thesis
      proof (cases x)
        case (Inl ex)
        with f Some False c k2 show ?thesis
          by (simp add: review_turn_find_next)
      next
        case (Inr pre)
        show ?thesis
        proof (cases pre)
          case None
          with f Some False c k2 Inr show ?thesis
            by (simp add: review_turn_find_next)
        next
          case (Some next_href)
          have "review_turn env n s =
              (if location (browser ?s3) = next_href
               then (if location (browser ?s4) = next_href then Stop None ?s4
                     else save_next env (n + 1) ?s4)
               else save_next env (n + 1) ?s3)"
            using f \<open>r1 = Some e\<close> False c Inr Some
            by (simp add: review_turn_find_next Let_def)
          with k3 show ?thesis
            by (cases "location (browser ?s3) = next_href";
                cases "location (browser ?s4) = next_href") auto
        qed
      qed
    qed
  qed
qed

lemma review_turn_file:
  "review_turn env n s = Stop r s' \<Longrightarrow>
     saved s' = saved s \<and> output_file s' = output_file s"
  "review_turn env n s = Advance s' \<Longrightarrow>
     \<exists>d ts. \<not> looks_like_last_page d
       \<and> saved s' = saved s @ [(''reviews_page_'' @ str_nat (n + 1), d, ts)]
       \<and> output_file s' = write_page (output_file s)
            (''reviews_page_'' @ str_nat (n + 1), d, ts)"
proof -
  from review_turn_shape [of env n s]
  consider (stop) r0 s0 where "review_turn env n s = Stop r0 s0" "saved s0 = saved s"
      "output_file s0 = output_file s"
    | (save) s3 where "review_turn env n s = save_next env (n + 1) s3" "saved s3 = saved s"
      "output_file s3 = output_file s"
    by blast
  note shape = this
  show "review_turn env n s = Stop r s' \<Longrightarrow>
     saved s' = saved s \<and> output_file s' = output_file s"
  proof -
    assume a: "review_turn env n s = Stop r s'"
    from shape show ?thesis
    proof cases
      case stop
      with a show ?thesis by simp
    next
      case save
      with a have "s' = s3"
        by (auto dest: save_next_cases(1))
      with save show ?thesis by simp
    qed
  qed
  show "review_turn env n s = Advance s' \<Longrightarrow>
     \<exists>d ts. \<not> looks_like_last_page d
       \<and> saved s' = saved s @ [(''reviews_page_'' @ str_nat (n + 1), d, ts)]
       \<and> output_file s' = write_page (output_file s)
            (''reviews_page_'' @ str_nat (n + 1), d, ts)"
  proof -
    assume a: "review_turn env n s = Advance s'"
    from shape show ?thesis
    proof cases
      case stop
      with a show ?thesis by simp
    next
      case save
      with a have "save_next env (n + 1) s3 = Advance s'"
        by simp
      from save_next_cases(2) [OF this]
      have "\<not> looks_like_last_page (view (browser s3))"
        and "s' = save_page env (''reviews_page_'' @ str_nat (n + 1)) s3"
        by simp_all
      then have "\<not> looks_like_last_page (view (browser s3))
          \<and> saved s' = saved s @ [(''reviews_page_'' @ str_nat (n + 1), view (browser s3),
                stamps env (total_pages s3))]
          \<and> output_file s' = write_page (output_file s)
               (''reviews_page_'' @ str_nat (n + 1), view (browser s3),
                stamps env (total_pages s3))"
        using save by (simp add: save_page_fields)
      then show ?thesis
        by blast
    qed
  qed
qed

text \<open>
  Claim C10. The pages that the pagination loop appends to the file are labelled
  \<open>reviews_page_k\<close> with \<open>k\<close> above the page number the loop starts from, and the
  last-page heuristic does not hold of any of them: when it fires on the page reached by
  a click, the loop ends before the save step.
\<close>

theorem last_page_never_saved:
  "review_loop env n s = (r, s') \<Longrightarrow>
     \<exists>new. saved s' = saved s @ new
       \<and> output_file s' = write_pages (output_file s) new
       \<and> (\<forall>p \<in> set new. \<not> looks_like_last_page (fst (snd p))
              \<and> (\<exists>k. n < k \<and> fst p = ''reviews_page_'' @ str_nat k))"
proof (induction "MAX_REVIEW_PAGES - n" arbitrary: n s)
  case 0
  from "0.hyps" have "review_loop env n s = (None, s)"
    by (simp add: review_loop.simps [of env n s])
  with "0.prems" have "saved s' = saved s @ []"
    "output_file s' = write_pages (output_file s) []"
    by (simp_all add: write_pages_def)
  then show ?case
    by (metis empty_iff list.set(1))
next
  case (Suc m)
  then have lt: "n < MAX_REVIEW_PAGES" and m: "m = MAX_REVIEW_PAGES - (n + 1)"
    by simp_all
  show ?case
  proof (cases "review_turn env n s")
    case (Stop r0 s0)
    with lt Suc.prems have "s' = s0"
      by (simp add: review_loop.simps [of env n s])
    with review_turn_file(1) [OF Stop] have "saved s' = saved s @ []"
      "output_file s' = write_pages (output_file s) []"
      by (simp_all add: write_pages_def)
    then show ?thesis
      by (metis empty_iff list.set(1))
  next
    case (Advance s1)
    with lt Suc.prems have loop: "review_loop env (n + 1) s1 = (r, s')"
      by (simp add: review_loop.simps [of env n s])
    from review_turn_file(2) [OF Advance] obtain d ts where
      first: "\<not> looks_like_last_page d"
        "saved s1 = saved s @ [(''reviews_page_'' @ str_nat (n + 1), d, ts)]"
        "output_file s1 = write_page (output_file s)
            (''reviews_page_'' @ str_nat (n + 1), d, ts)"
      by blast
    from Suc.hyps(1) [OF m loop] obtain new where
      rest: "saved s' = saved s1 @ new"
        "output_file s' = write_pages (output_file s1) new"
        "\<forall>p \<in> set new. \<not> looks_like_last_page (fst (snd p))
              \<and> (\<exists>k. n + 1 < k \<and> fst p = ''reviews_page_'' @ str_nat k)"
      by blast
    let ?p = "(''reviews_page_'' @ str_nat (n + 1), d, ts)"
    have "saved s' = saved s @ (?p # new)"
      using first rest by simp
    moreover have "output_file s' = write_pages (output_file s) (?p # new)"
      using first rest by (simp add: write_pages_def)
    moreover have "\<forall>p \<in> set (?p # new). \<not> looks_like_last_page (fst (snd p))
              \<and> (\<exists>k. n < k \<and> fst p = ''reviews_page_'' @ str_nat k)"
    proof
      fix p assume "p \<in> set (?p # new)"
      then consider "p = ?p" | "p \<in> set new"
        by auto
      then show "\<not> looks_like_last_page (fst (snd p))
              \<and> (\<exists>k. n < k \<and> fst p = ''reviews_page_'' @ str_nat k)"
      proof cases
        case 1
        have "n < n + 1"
          by simp
        with 1 first(1) show ?thesis
          by (metis fst_conv snd_conv)
      next
        case 2
        with rest(3) obtain k where "\<not> looks_like_last_page (fst (snd p))" "n + 1 < k"
          "fst p = ''reviews_page_'' @ str_nat k"
          by blast
        moreover from this have "n < k"
          by simp
        ultimately show ?thesis
          by blast
      qed
    qed
    ultimately show ?thesis
      by blast
  qed
qed

subsection \<open>A click that leaves the URL where it is\<close>

text \<open>On site \<open>S\<close>, going to \<open>target\<close> from URL \<open>u\<close> ends on \<open>u\<close> again: the click goes
  nowhere, its target does not load, or its target redirects to \<open>u\<close>.\<close>

definition lands :: "(string \<Rightarrow> (string \<times> web_page) option) \<Rightarrow> string \<Rightarrow> string option \<Rightarrow> bool" where
  "lands S u target =
     (case target of
        None \<Rightarrow> True
      | Some v \<Rightarrow> (case S v of None \<Rightarrow> True | Some (u', pg') \<Rightarrow> u' = u))"

text \<open>Whatever way \<open>_click_next_page\<close> gets to click element \<open>e\<close> at URL \<open>u\<close> (through the
  script, natively, or by loading its \<open>href\<close>), the URL is \<open>u\<close> afterwards.\<close>

definition click_keeps_url :: "(string \<Rightarrow> (string \<times> web_page) option) \<Rightarrow> string \<Rightarrow> element \<Rightarrow> bool" where
  "click_keeps_url S u e =
     (case js_click e of
        ClickGoes target \<Rightarrow> lands S u target
      | ClickRaises \<Rightarrow>
          (case native_click e of
             ClickGoes target \<Rightarrow> lands S u target
           | ClickRaises \<Rightarrow> lands S u (href e)))"

lemma follow_lands:
  "lands (site b) (location b) target \<Longrightarrow>
     location (follow target b) = location b \<and> site (follow target b) = site b"
  by (auto simp: lands_def follow_def get_def split: option.splits)

lemma click_next_page_after_wait:
  "\<exists>s2. site (browser s2) = site (browser s1) \<and> location (browser s2) = location (browser s1)
     \<and> events s2 = events s1 @ [Slept 1, Waited ''before clicking Next'']
     \<and> click_next_page env e s1 =
        (case js_click e of
           ClickGoes target \<Rightarrow>
             (Inr (Some (location (browser s2))),
              s2\<lparr>browser := follow target (browser s2), events := events s2 @ [Clicked]\<rparr>)
         | ClickRaises \<Rightarrow>
             (case native_click e of
                ClickGoes target \<Rightarrow>
                  (Inr (Some (location (browser s2))),
                   s2\<lparr>browser := follow target (browser s2), events := events s2 @ [Clicked]\<rparr>)
              | ClickRaises \<Rightarrow>
                  (case href e of
                     None \<Rightarrow> (Inr None, s2)
                   | Some h \<Rightarrow>
                       if h = [] then (Inr None, s2)
                       else (case get h (browser s2) of
                               None \<Rightarrow> (Inl TimeoutException, s2)
                             | Some b \<Rightarrow>
                                 (Inr (Some (location (browser s2))),
                                  s2\<lparr>browser := b, events := events s2 @ [Loaded h]\<rparr>)))))"
proof -
  define s2 where "s2 = random_wait env ''before clicking Next''
     (sleep 1 (s1\<lparr>browser := scroll_to (top_y e - inner_height (browser s1) div 2) (browser s1)\<rparr>))"
  have "site (browser s2) = site (browser s1)" "location (browser s2) = location (browser s1)"
    "events s2 = events s1 @ [Slept 1, Waited ''before clicking Next'']"
    by (simp_all add: s2_def random_wait_fields sleep_fields scroll_to_def)
  moreover have "click_next_page env e s1 =
        (case js_click e of
           ClickGoes target \<Rightarrow>
             (Inr (Some (location (browser s2))),
              s2\<lparr>browser := follow target (browser s2), events := events s2 @ [Clicked]\<rparr>)
         | ClickRaises \<Rightarrow>
             (case native_click e of
                ClickGoes target \<Rightarrow>
                  (Inr (Some (location (browser s2))),
                   s2\<lparr>browser := follow target (browser s2), events := events s2 @ [Clicked]\<rparr>)
              | ClickRaises \<Rightarrow>
                  (case href e of
                     None \<Rightarrow> (Inr None, s2)
                   | Some h \<Rightarrow>
                       if h = [] then (Inr None, s2)
                       else (case get h (browser s2) of
                               None \<Rightarrow> (Inl TimeoutException, s2)
                             | Some b \<Rightarrow>
                                 (Inr (Some (location (browser s2))),
                                  s2\<lparr>browser := b, events := events s2 @ [Loaded h]\<rparr>)))))"
    unfolding click_next_page_def Let_def s2_def by (rule refl)
  ultimately show ?thesis
    by blast
qed

lemma click_next_page_noop:
  assumes keeps: "click_keeps_url S u e"
    and S: "site (browser s1) = S" and u: "location (browser s1) = u"
  shows "\<exists>x s2 evs. click_next_page env e s1 = (x, s2)
           \<and> location (browser s2) = u
           \<and> events s2 = events s1 @ [Slept 1, Waited ''before clicking Next''] @ evs
           \<and> ((x = Inr (Some u) \<and> (evs = [Clicked] \<or> (\<exists>h. evs = [Loaded h])))
              \<or> ((x = Inr None \<or> x = Inl TimeoutException) \<and> evs = []))"
proof -
  from click_next_page_after_wait [of s1 env e] S u obtain s2 where
    b: "site (browser s2) = S" "location (browser s2) = u"
    and ev: "events s2 = events s1 @ [Slept 1, Waited ''before clicking Next'']"
    and run: "click_next_page env e s1 =
        (case js_click e of
           ClickGoes target \<Rightarrow>
             (Inr (Some (location (browser s2))),
              s2\<lparr>browser := follow target (browser s2), events := events s2 @ [Clicked]\<rparr>)
         | ClickRaises \<Rightarrow>
             (case native_click e of
                ClickGoes target \<Rightarrow>
                  (Inr (Some (location (browser s2))),
                   s2\<lparr>browser := follow target (browser s2), events := events s2 @ [Clicked]\<rparr>)
              | ClickRaises \<Rightarrow>
                  (case href e of
                     None \<Rightarrow> (Inr None, s2)
                   | Some h \<Rightarrow>
                       if h = [] then (Inr None, s2)
                       else (case get h (browser s2) of
                               None \<Rightarrow> (Inl TimeoutException, s2)
                             | Some b \<Rightarrow>
                                 (Inr (Some (location (browser s2))),
                                  s2\<lparr>browser := b, events := events s2 @ [Loaded h]\<rparr>)))))"
    by auto
  let ?c = "\<lambda>target. s2\<lparr>browser := follow target (browser s2), events := events s2 @ [Clicked]\<rparr>"
  have clicked: "location (browser (?c target)) = u
      \<and> events (?c target) = events s1 @ [Slept 1, Waited ''before clicking Next''] @ [Clicked]"
    if "lands S u target" for target
    using follow_lands [of "browser s2" target] that b ev by simp
  show ?thesis
  proof (cases "js_click e")
    case (ClickGoes target)
    with keeps have "lands S u target"
      by (simp add: click_keeps_url_def)
    from clicked [OF this] have "click_next_page env e s1 = (Inr (Some u), ?c target)
        \<and> location (browser (?c target)) = u
        \<and> events (?c target) = events s1 @ [Slept 1, Waited ''before clicking Next''] @ [Clicked]"
      using ClickGoes b by (simp add: run)
    then show ?thesis
      by blast
  next
    case ClickRaises
    note js = this
    show ?thesis
    proof (cases "native_click e")
      case (ClickGoes target)
      with keeps js have "lands S u target"
        by (simp add: click_keeps_url_def)
      from clicked [OF this] have "click_next_page env e s1 = (Inr (Some u), ?c target)
          \<and> location (browser (?c target)) = u
          \<and> events (?c target) = events s1 @ [Slept 1, Waited ''before clicking Next''] @ [Clicked]"
        using ClickGoes js b by (simp add: run)
      then show ?thesis
        by blast
    next
      case ClickRaises
      with keeps js have l: "lands S u (href e)"
        by (simp add: click_keeps_url_def)
      have stay: ?thesis if "click_next_page env e s1 = (x, s2)"
        "x = Inr None \<or> x = Inl TimeoutException" for x
      proof -
        from that b ev have "click_next_page env e s1 = (x, s2) \<and> location (browser s2) = u
            \<and> events s2 = events s1 @ [Slept 1, Waited ''before clicking Next''] @ []
            \<and> ((x = Inr None \<or> x = Inl TimeoutException) \<and> [] = ([] :: event list))"
          by simp
        then show ?thesis
          by blast
      qed
      show ?thesis
      proof (cases "href e")
        case None
        with js ClickRaises have "click_next_page env e s1 = (Inr None, s2)"
          by (simp add: run)
        then show ?thesis
          by (rule stay) simp
      next
        case (Some h)
        show ?thesis
        proof (cases "h = []")
          case True
          with Some js ClickRaises have "click_next_page env e s1 = (Inr None, s2)"
            by (simp add: run)
          then show ?thesis
            by (rule stay) simp
        next
          case False
          show ?thesis
          proof (cases "S h")
            case None
            then have "get h (browser s2) = None"
              using b by (simp add: get_def)
            with Some False js ClickRaises
            have "click_next_page env e s1 = (Inl TimeoutException, s2)"
              by (simp add: run)
            then show ?thesis
              by (rule stay) simp
          next
            case (Some a)
            then obtain pg' where a: "S h = Some (u, pg')"
              using l \<open>href e = Some h\<close> by (cases a) (simp add: lands_def)
            let ?b = "(browser s2)\<lparr>location := u, shown := pg', scroll_y := 0\<rparr>"
            let ?s = "s2\<lparr>browser := ?b, events := events s2 @ [Loaded h]\<rparr>"
            from a have "get h (browser s2) = Some ?b"
              using b by (simp add: get_def)
            with \<open>href e = Some h\<close> False js ClickRaises b
            have "click_next_page env e s1 = (Inr (Some u), ?s)"
              by (simp add: run)
            moreover have "location (browser ?s) = u"
              by simp
            moreover have "events ?s
                = events s1 @ [Slept 1, Waited ''before clicking Next''] @ [Loaded h]"
              using ev by simp
            ultimately show ?thesis
              by blast
          qed
        qed
      qed
    qed
  qed
qed

text \<open>
  Claim C8. When no click on a "next" link of the page shown changes the URL, the
  pagination loop ends in its first turn: after the click it waits for the page load,
  finds the URL unchanged, waits once more (three seconds), finds it unchanged again and
  leaves the loop. It clicks once, saves nothing, and the only exception that can leave
  it is the timeout of the direct navigation.
\<close>

theorem noop_click_stops_loop:
  assumes "showing S u pg s"
    and "\<forall>e. next_candidate pg e \<longrightarrow> click_keeps_url S u e"
  shows "\<exists>r s' evs. review_loop env n s = (r, s')
      \<and> (r = None \<or> r = Some TimeoutException)
      \<and> saved s' = saved s \<and> output_file s' = output_file s
      \<and> location (browser s') = u
      \<and> events s' = events s @ evs
      \<and> (evs = []
         \<or> evs = [Slept 1, Waited ''before clicking Next'']
         \<or> (\<exists>c. (c = Clicked \<or> (\<exists>h. c = Loaded h))
               \<and> evs = [Slept 1, Waited ''before clicking Next'', c,
                        Waited ''page load'', Slept 3]))"
proof (cases "n < MAX_REVIEW_PAGES")
  case False
  then have "review_loop env n s = (None, s)"
    by (simp add: review_loop.simps [of env n s])
  with assms(1) show ?thesis
    by (simp add: showing_def)
next
  case True
  obtain r1 s1 where f: "find_next env s = (r1, s1)"
    by (cases "find_next env s") auto
  note k = find_next_kept [OF f]
  from k(1) assms(1) have s1: "site (browser s1) = S" "location (browser s1) = u"
    "saved s1 = saved s" "output_file s1 = output_file s" "events s1 = events s"
    by (simp_all add: kept_def showing_def)
  have stop: ?thesis if "review_turn env n s = Stop r s'"
    and "r = None \<or> r = Some TimeoutException"
    and "saved s' = saved s" "output_file s' = output_file s" "location (browser s') = u"
    and "events s' = events s @ evs"
    and "evs = []
         \<or> evs = [Slept 1, Waited ''before clicking Next'']
         \<or> (\<exists>c. (c = Clicked \<or> (\<exists>h. c = Loaded h))
               \<and> evs = [Slept 1, Waited ''before clicking Next'', c,
                        Waited ''page load'', Slept 3])" for r s' evs
  proof -
    from True that(1) have "review_loop env n s = (r, s')"
      by (simp add: review_loop.simps [of env n s])
    with that(2-) show ?thesis
      by blast
  qed
  show ?thesis
  proof (cases r1)
    case None
    with f have "review_turn env n s = Stop None s1"
      by (simp add: review_turn_find_next)
    then show ?thesis
      by (rule stop [where evs = "[]"]) (simp_all add: s1)
  next
    case (Some e)
    show ?thesis
    proof (cases "is_blocked_or_redirected (browser s1)")
      case True
      with f Some have "review_turn env n s = Stop None s1"
        by (simp add: review_turn_find_next)
      then show ?thesis
        by (rule stop [where evs = "[]"]) (simp_all add: s1)
    next
      case False
      from k(2) Some assms(1) have "next_candidate pg e"
        by (simp add: showing_def)
      with assms(2) have "click_keeps_url S u e"
        by simp
      from click_next_page_noop [OF this s1(1,2), of env] obtain x s2 evs where
        c: "click_next_page env e s1 = (x, s2)" and l2: "location (browser s2) = u"
        and e2: "events s2 = events s1 @ [Slept 1, Waited ''before clicking Next''] @ evs"
        and x: "(x = Inr (Some u) \<and> (evs = [Clicked] \<or> (\<exists>h. evs = [Loaded h])))
              \<or> ((x = Inr None \<or> x = Inl TimeoutException) \<and> evs = [])"
        by blast
      from click_next_page_file [OF c] s1 have f2: "saved s2 = saved s"
        "output_file s2 = output_file s"
        by simp_all
      from x consider (went) "x = Inr (Some u)" "evs = [Clicked] \<or> (\<exists>h. evs = [Loaded h])"
        | (none) "x = Inr None" "evs = []" | (timeout) "x = Inl TimeoutException" "evs = []"
        by blast
      then show ?thesis
      proof cases
        case went
        let ?s4 = "sleep 3 (random_wait env ''page load'' s2)"
        from went(2) obtain c where cc: "evs = [c]" "c = Clicked \<or> (\<exists>h. c = Loaded h)"
          by blast
        have "review_turn env n s = Stop None ?s4"
          using f Some False c went(1) l2
          by (simp add: review_turn_find_next Let_def random_wait_fields sleep_fields)
        then show ?thesis
        proof (rule stop [where evs = "[Slept 1, Waited ''before clicking Next'', c,
                        Waited ''page load'', Slept 3]"])
          show "events ?s4 = events s @ [Slept 1, Waited ''before clicking Next'', c,
                        Waited ''page load'', Slept 3]"
            using e2 cc(1) s1(5) by (simp add: random_wait_fields sleep_fields)
          show "[Slept 1, Waited ''before clicking Next'', c, Waited ''page load'', Slept 3] = []
             \<or> [Slept 1, Waited ''before clicking Next'', c, Waited ''page load'', Slept 3]
                 = [Slept 1, Waited ''before clicking Next'']
             \<or> (\<exists>c'. (c' = Clicked \<or> (\<exists>h. c' = Loaded h))
               \<and> [Slept 1, Waited ''before clicking Next'', c, Waited ''page load'', Slept 3]
                   = [Slept 1, Waited ''before clicking Next'', c',
                        Waited ''page load'', Slept 3])"
            using cc(2) by blast
        qed (simp_all add: random_wait_fields sleep_fields f2 l2)
      next
        case none
        with f Some False c have "review_turn env n s = Stop None s2"
          by (simp add: review_turn_find_next)
        then show ?thesis
          by (rule stop [where evs = "[Slept 1, Waited ''before clicking Next'']"])
            (simp_all add: f2 l2 e2 none s1)
      next
        case timeout
        with f Some False c have "review_turn env n s = Stop (Some TimeoutException) s2"
          by (simp add: review_turn_find_next)
        then show ?thesis
          by (rule stop [where evs = "[Slept 1, Waited ''before clicking Next'']"])
            (simp_all add: f2 l2 e2 timeout s1)
      qed
    qed
  qed
qed

subsection \<open>A turn that reaches a page on which the last-page heuristic fires\<close>

lemma review_turn_last_page:
  assumes at: "showing S u pg s"
    and has: "first_displayed pg NEXT_PAGE_FALLBACKS \<noteq> None"
    and goes: "\<forall>e. next_candidate pg e \<longrightarrow> js_click e = ClickGoes (Some t)"
    and St: "S t = Some (v, pg')"
    and vu: "v \<noteq> u" and nb: "\<not> blocked_url u"
    and last: "looks_like_last_page (page_view v pg')"
  shows "\<exists>s'. review_turn env n s = Stop None s' \<and> showing S v pg' s'
           \<and> saved s' = saved s \<and> output_file s' = output_file s"
proof -
  obtain r s1 where f: "find_next env s = (r, s1)"
    by (cases "find_next env s") auto
  note k = find_next_kept [OF f]
  from at have pg: "shown (browser s) = pg" and S: "site (browser s) = S"
    and u: "location (browser s) = u"
    by (simp_all add: showing_def)
  from k(2,3) has pg obtain e where e: "r = Some e" "next_candidate pg e"
    by auto
  with goes have js: "js_click e = ClickGoes (Some t)"
    by simp
  from k(1) S u have s1: "site (browser s1) = S" "location (browser s1) = u"
    "output_file s1 = output_file s" "total_pages s1 = total_pages s" "saved s1 = saved s"
    by (simp_all add: kept_def)
  from click_goes [OF js, of s1 v pg' env] St s1 obtain s2 where
    c: "click_next_page env e s1 = (Inr (Some u), s2)" "showing S v pg' s2"
      "output_file s2 = output_file s" "total_pages s2 = total_pages s" "saved s2 = saved s"
    by auto
  let ?s3 = "random_wait env ''page load'' s2"
  from c(2) have b3: "browser ?s3 = browser s2" "location (browser s2) = v"
    "shown (browser s2) = pg'" "site (browser s2) = S"
    by (simp_all add: random_wait_fields showing_def)
  then have v3: "view (browser ?s3) = page_view v pg'"
    by (simp add: view_def)
  have "review_turn env n s = save_next env (n + 1) ?s3"
    using f e c(1) s1 nb vu b3
    by (simp add: review_turn_find_next is_blocked_or_redirected_url Let_def)
  also have "\<dots> = Stop None ?s3"
    using last v3 by (simp add: save_next_def)
  finally have "review_turn env n s = Stop None ?s3" .
  moreover have "showing S v pg' ?s3"
    using b3 by (simp add: showing_def)
  moreover have "saved ?s3 = saved s" "output_file ?s3 = output_file s"
    using c by (simp_all add: random_wait_fields)
  ultimately show ?thesis
    by blast
qed

section \<open>A sample shop\<close>

text \<open>
  A site with a product page, four reviews pages linked by "Next page" links, and a
  page that is not found. Every page is 5000 letters x long and fits the window, so
  that no block check matches and the scroll loop has nothing to scroll.
\<close>

definition product_address :: string where
  "product_address = ''https://www.amazon.in/dp/B000000000''"

definition reviews_address :: "string \<Rightarrow> string" where
  "reviews_address k = ''https://www.amazon.in/product-reviews/B000000000?pageNumber='' @ k"

definition see_more_element :: element where
  "see_more_element =
     \<lparr>href = Some ''/product-reviews/B000000000?pageNumber=1'', displayed = True, top_y = 400,
      js_click = ClickRaises, native_click = ClickRaises\<rparr>"

definition next_element :: "string \<Rightarrow> element" where
  "next_element t =
     \<lparr>href = Some t, displayed = True, top_y = 400,
      js_click = ClickGoes (Some t), native_click = ClickGoes (Some t)\<rparr>"

text \<open>A "next" link that only the native click follows, and one that no click follows,
  so that its \<open>href\<close> is loaded.\<close>

definition native_element :: "string \<Rightarrow> element" where
  "native_element t =
     \<lparr>href = Some t, displayed = True, top_y = 400,
      js_click = ClickRaises, native_click = ClickGoes (Some t)\<rparr>"

definition href_element :: "string \<Rightarrow> element" where
  "href_element t =
     \<lparr>href = Some t, displayed = True, top_y = 400,
      js_click = ClickRaises, native_click = ClickRaises\<rparr>"

text \<open>A "next" link whose click does nothing.\<close>

definition dead_element :: element where
  "dead_element =
     \<lparr>href = Some ''#'', displayed = True, top_y = 400,
      js_click = ClickGoes None, native_click = ClickGoes None\<rparr>"

definition product_document :: web_page where
  "product_document =
     \<lparr>html_text = replicate 5000 CHR ''x'', title_text = ''Product'', scroll_height = 600,
      by_xpath = (\<lambda>x. if x = SEE_MORE_REVIEWS_XPATH then Some see_more_element else None),
      by_css = (\<lambda>x. if x = SEE_MORE_REVIEWS_CSS then Some see_more_element else None)\<rparr>"

definition reviews_document :: "element option \<Rightarrow> web_page" where
  "reviews_document next_el =
     \<lparr>html_text = replicate 5000 CHR ''x'', title_text = ''Reviews'', scroll_height = 600,
      by_xpath = (\<lambda>x. if x = NEXT_PAGE_XPATH then next_el else None),
      by_css = (\<lambda>x. None)\<rparr>"

definition missing_document :: web_page where
  "missing_document =
     \<lparr>html_text = replicate 5000 CHR ''x'', title_text = ''Page Not Found'',
      scroll_height = 600, by_xpath = (\<lambda>x. None), by_css = (\<lambda>x. None)\<rparr>"

definition shop :: "string \<Rightarrow> (string \<times> web_page) option" where
  "shop u =
     (if u = product_address then Some (u, product_document)
      else if u = reviews_address ''1''
      then Some (u, reviews_document (Some (next_element (reviews_address ''2''))))
      else if u = reviews_address ''2''
      then Some (u, reviews_document (Some (native_element (reviews_address ''3''))))
      else if u = reviews_address ''3''
      then Some (u, reviews_document (Some (href_element (reviews_address ''4''))))
      else if u = reviews_address ''4'' then Some (u, reviews_document None)
      else if u = reviews_address ''5'' then Some (u, missing_document)
      else None)"

definition sample_env :: surroundings where
  "sample_env = \<lparr>dice = (\<lambda>k. 0), stamps = (\<lambda>k. ''2024-01-01 12:00:00'')\<rparr>"

text \<open>The scraper after \<open>start\<close>, and the scraper on a reviews page \<open>pg\<close> at URL \<open>u\<close> with
  nothing saved yet.\<close>

definition scraper_at :: "string \<Rightarrow> web_page \<Rightarrow> AmazonHTMLScraper" where
  "scraper_at u pg =
     \<lparr>browser = \<lparr>site = shop, location = u, shown = pg, scroll_y = 0, inner_height = 800\<rparr>,
      output_file = start_comment, total_pages = 0, total_bytes = 0, draws = 0,
      events = [], saved = []\<rparr>"

definition started_scraper :: AmazonHTMLScraper where
  "started_scraper =
     scraper_at ''data:,''
       \<lparr>html_text = [], title_text = [], scroll_height = 0,
        by_xpath = (\<lambda>x. None), by_css = (\<lambda>x. None)\<rparr>"

lemma check_for_blocks_letters:
  assumes "\<not> str_in ''/ap/signin'' (lower u)" and "\<not> str_in ''/ap/register'' (lower u)"
    and "\<not> str_in ''captcha'' (lower u)"
    and "html_text pg = replicate n CHR ''x''" and "5000 \<le> n"
  shows "\<not> fst (check_for_blocks (page_view u pg))"
  using assms
  by (simp add: check_for_blocks_cases login_redirect_url_def page_view_def lower_replicate
      lower_char_x find_captcha_indicator_replicate_x)

lemma looks_like_last_page_letters:
  assumes "html_text pg = replicate n CHR ''x''"
  shows "looks_like_last_page (page_view u pg) =
     (str_in ''page not found'' (lower (title_text pg)) \<or> str_in ''404'' (lower (title_text pg)))"
  using assms
  by (simp add: looks_like_last_page_def page_view_def lower_replicate lower_char_x
      str_in_replicate Let_def)

lemma sample_addresses_clear:
  "\<not> str_in ''/ap/signin'' (lower product_address)"
  "\<not> str_in ''/ap/register'' (lower product_address)"
  "\<not> str_in ''captcha'' (lower product_address)"
  "\<not> str_in ''/ap/signin'' (lower (reviews_address ''1''))"
  "\<not> str_in ''/ap/register'' (lower (reviews_address ''1''))"
  "\<not> str_in ''captcha'' (lower (reviews_address ''1''))"
  "\<not> blocked_url (reviews_address ''1'')"
  "\<not> blocked_url (reviews_address ''2'')"
  "\<not> blocked_url (reviews_address ''3'')"
  by code_simp+

lemma sample_titles:
  "\<not> str_in ''page not found'' (lower ''Reviews'')"
  "\<not> str_in ''404'' (lower ''Reviews'')"
  "str_in ''page not found'' (lower ''Page Not Found'')"
  by code_simp+

lemma reviews_address_eq [simp]: "reviews_address k = reviews_address k' \<longleftrightarrow> k = k'"
  by (simp add: reviews_address_def)

lemma reviews_address_product [simp]: "reviews_address k \<noteq> product_address"
  by (simp add: reviews_address_def product_address_def)

lemma shop_pages:
  "shop product_address = Some (product_address, product_document)"
  "shop (reviews_address ''1'')
     = Some (reviews_address ''1'', reviews_document (Some (next_element (reviews_address ''2''))))"
  "shop (reviews_address ''2'')
     = Some (reviews_address ''2'', reviews_document (Some (native_element (reviews_address ''3''))))"
  "shop (reviews_address ''3'')
     = Some (reviews_address ''3'', reviews_document (Some (href_element (reviews_address ''4''))))"
  "shop (reviews_address ''4'') = Some (reviews_address ''4'', reviews_document None)"
  "shop (reviews_address ''5'') = Some (reviews_address ''5'', missing_document)"
  by (simp_all add: shop_def)

lemma reviews_document_candidates:
  "first_displayed (reviews_document (Some e)) NEXT_PAGE_FALLBACKS
     = (if displayed e then Some e else None)"
  "first_displayed (reviews_document None) NEXT_PAGE_FALLBACKS = None"
  "by_xpath (reviews_document r) NEXT_PAGE_XPATH = r"
  by (simp_all add: reviews_document_def NEXT_PAGE_FALLBACKS_def NEXT_PAGE_XPATH_def)

lemma next_element_fields:
  "displayed (next_element t)" "js_click (next_element t) = ClickGoes (Some t)"
  by (simp_all add: next_element_def)

lemma reviews_document_next:
  "next_candidate (reviews_document (Some e)) e' \<longleftrightarrow> e' = e"
  by (auto simp: next_candidate_def reviews_document_candidates)

lemma sample_clicks:
  "shop t = Some (t, pg) \<Longrightarrow> click_reaches shop (next_element t) t pg"
  "shop t = Some (t, pg) \<Longrightarrow> click_reaches shop (native_element t) t pg"
  "shop t = Some (t, pg) \<Longrightarrow> t \<noteq> [] \<Longrightarrow> click_reaches shop (href_element t) t pg"
  "displayed (native_element t)" "displayed (href_element t)"
  by (simp_all add: click_reaches_def next_element_def native_element_def href_element_def)

lemma product_document_link:
  "see_more_link product_document ''/product-reviews/B000000000?pageNumber=1''"
  by (simp add: see_more_link_def product_document_def see_more_element_def)

lemma absolute_link:
  "absolute ''/product-reviews/B000000000?pageNumber=1'' = reviews_address ''1''"
  by (simp add: absolute_def reviews_address_def)

lemma shop_serves_next:
  assumes "click_reaches shop e t (reviews_document r)" and "displayed e"
    and "t \<noteq> u" and "\<not> blocked_url u"
  shows "serves_next shop u (reviews_document (Some e)) t (reviews_document r)"
  unfolding serves_next_def
proof (intro conjI)
  show "first_displayed (reviews_document (Some e)) NEXT_PAGE_FALLBACKS \<noteq> None"
    using assms(2) by (simp add: reviews_document_candidates)
  show "\<forall>e'. next_candidate (reviews_document (Some e)) e'
            \<longrightarrow> click_reaches shop e' t (reviews_document r)"
    using assms(1) by (simp add: reviews_document_next)
  show "t \<noteq> u" "\<not> blocked_url u"
    by (rule assms)+
  show "\<not> looks_like_last_page (page_view t (reviews_document r))"
    by (simp add: looks_like_last_page_letters [of _ 5000] reviews_document_def sample_titles)
qed

text \<open>The five pages that the scraper is to save on the sample shop.\<close>

definition sample_saved :: "saved_page list" where
  "sample_saved =
     [(''product_page'', page_view product_address product_document, ''2024-01-01 12:00:00''),
      (''reviews_page_1'',
       page_view (reviews_address ''1'')
         (reviews_document (Some (next_element (reviews_address ''2'')))),
       ''2024-01-01 12:00:00''),
      (''reviews_page_2'',
       page_view (reviews_address ''2'')
         (reviews_document (Some (native_element (reviews_address ''3'')))),
       ''2024-01-01 12:00:00''),
      (''reviews_page_3'',
       page_view (reviews_address ''3'')
         (reviews_document (Some (href_element (reviews_address ''4'')))),
       ''2024-01-01 12:00:00''),
      (''reviews_page_4'', page_view (reviews_address ''4'') (reviews_document None),
       ''2024-01-01 12:00:00'')]"

theorem scrape_four_review_pages_witness:
  "fst (scrape_product_to_reviews sample_env product_address started_scraper) = Inr True
   \<and> output_file (snd (scrape_product_to_reviews sample_env product_address started_scraper))
       = start_comment @ concat (map page_block sample_saved)
   \<and> map fst sample_saved
       = [''product_page'', ''reviews_page_1'', ''reviews_page_2'', ''reviews_page_3'',
          ''reviews_page_4'']
   \<and> saved (snd (scrape_product_to_reviews sample_env product_address started_scraper))
       = sample_saved
   \<and> total_pages (snd (scrape_product_to_reviews sample_env product_address started_scraper))
       = 5"
proof -
  have site: "site (browser started_scraper) = shop"
    and fresh: "saved started_scraper = []" "output_file started_scraper = start_comment"
      "total_pages started_scraper = 0"
    by (simp_all add: started_scraper_def scraper_at_def)
  have stamp: "stamps sample_env k = ''2024-01-01 12:00:00''" for k
    by (simp add: sample_env_def)
  have product: "\<not> fst (check_for_blocks (page_view product_address product_document))"
    by (rule check_for_blocks_letters [of _ _ 5000])
      (simp_all add: sample_addresses_clear product_document_def)
  have first: "shop (absolute ''/product-reviews/B000000000?pageNumber=1'')
      = Some (reviews_address ''1'',
          reviews_document (Some (next_element (reviews_address ''2''))))"
    by (simp add: absolute_link shop_pages)
  have reviews: "\<not> fst (check_for_blocks (page_view (reviews_address ''1'')
      (reviews_document (Some (next_element (reviews_address ''2''))))))"
    by (rule check_for_blocks_letters [of _ _ 5000])
      (simp_all add: sample_addresses_clear reviews_document_def)
  have n1: "serves_next shop (reviews_address ''1'')
      (reviews_document (Some (next_element (reviews_address ''2''))))
      (reviews_address ''2'') (reviews_document (Some (native_element (reviews_address ''3''))))"
    by (rule shop_serves_next)
      (simp_all add: shop_pages sample_addresses_clear sample_clicks next_element_fields)
  have n2: "serves_next shop (reviews_address ''2'')
      (reviews_document (Some (native_element (reviews_address ''3''))))
      (reviews_address ''3'') (reviews_document (Some (href_element (reviews_address ''4''))))"
    by (rule shop_serves_next) (simp_all add: shop_pages sample_addresses_clear sample_clicks)
  have "reviews_address ''4'' \<noteq> []"
    by (simp add: reviews_address_def)
  then have n3: "serves_next shop (reviews_address ''3'')
      (reviews_document (Some (href_element (reviews_address ''4''))))
      (reviews_address ''4'') (reviews_document None)"
    by (intro shop_serves_next) (simp_all add: shop_pages sample_addresses_clear sample_clicks)
  have last: "no_next_link (reviews_document None)"
    by (simp add: no_next_link_def reviews_document_candidates)
  let ?run = "scrape_product_to_reviews sample_env product_address started_scraper"
  let ?five = "[(''product_page'', page_view product_address product_document,
           stamps sample_env (total_pages started_scraper)),
          (''reviews_page_1'', page_view (reviews_address ''1'')
             (reviews_document (Some (next_element (reviews_address ''2'')))),
           stamps sample_env (total_pages started_scraper + 1)),
          (''reviews_page_2'', page_view (reviews_address ''2'')
             (reviews_document (Some (native_element (reviews_address ''3'')))),
           stamps sample_env (total_pages started_scraper + 2)),
          (''reviews_page_3'', page_view (reviews_address ''3'')
             (reviews_document (Some (href_element (reviews_address ''4'')))),
           stamps sample_env (total_pages started_scraper + 3)),
          (''reviews_page_4'', page_view (reviews_address ''4'') (reviews_document None),
           stamps sample_env (total_pages started_scraper + 4))]"
  from scrape_four_review_pages [OF site shop_pages(1) product product_document_link first
      reviews n1 n2 n3 last, of sample_env]
  have r: "fst ?run = Inr True"
    and f: "output_file (snd ?run) = output_file started_scraper @ concat (map page_block ?five)"
    and v: "saved (snd ?run) = saved started_scraper @ ?five"
    and t: "total_pages (snd ?run) = total_pages started_scraper + 5"
    by blast+
  from f have "output_file (snd ?run) = start_comment @ concat (map page_block sample_saved)"
    by (simp only: stamp fresh sample_saved_def)
  moreover from v have "saved (snd ?run) = sample_saved"
    by (simp only: stamp fresh sample_saved_def append_Nil)
  moreover from t have "total_pages (snd ?run) = 5"
    by (simp add: fresh)
  moreover note r
  moreover have "map fst sample_saved
       = [''product_page'', ''reviews_page_1'', ''reviews_page_2'', ''reviews_page_3'',
          ''reviews_page_4'']"
    by (simp add: sample_saved_def)
  ultimately show ?thesis
    by blast
qed

text \<open>The scraper on a reviews page whose "next" link does nothing when it is clicked.\<close>

definition stuck_scraper :: AmazonHTMLScraper where
  "stuck_scraper = scraper_at (reviews_address ''1'') (reviews_document (Some dead_element))"

theorem noop_click_stops_loop_witness:
  "click_keeps_url shop (reviews_address ''1'') dead_element
   \<and> fst (review_loop sample_env 1 stuck_scraper) \<in> {None, Some TimeoutException}
   \<and> saved (snd (review_loop sample_env 1 stuck_scraper)) = []
   \<and> output_file (snd (review_loop sample_env 1 stuck_scraper)) = start_comment
   \<and> length (events (snd (review_loop sample_env 1 stuck_scraper))) \<le> 5
   \<and> length (filter (\<lambda>e. e = Slept 3) (events (snd (review_loop sample_env 1 stuck_scraper))))
       \<le> 1"
proof -
  have keeps: "click_keeps_url shop (reviews_address ''1'') dead_element"
    by (simp add: click_keeps_url_def dead_element_def lands_def)
  have at: "showing shop (reviews_address ''1'') (reviews_document (Some dead_element))
      stuck_scraper"
    by (simp add: showing_def stuck_scraper_def scraper_at_def)
  have all: "\<forall>e. next_candidate (reviews_document (Some dead_element)) e
      \<longrightarrow> click_keeps_url shop (reviews_address ''1'') e"
    using keeps by (simp add: reviews_document_next)
  have start: "saved stuck_scraper = []" "output_file stuck_scraper = start_comment"
    "events stuck_scraper = []"
    by (simp_all add: stuck_scraper_def scraper_at_def)
  from noop_click_stops_loop [OF at all, of sample_env 1] obtain r s' evs where
    "review_loop sample_env 1 stuck_scraper = (r, s')"
    "r = None \<or> r = Some TimeoutException"
    "saved s' = saved stuck_scraper" "output_file s' = output_file stuck_scraper"
    "events s' = events stuck_scraper @ evs"
    "evs = []
         \<or> evs = [Slept 1, Waited ''before clicking Next'']
         \<or> (\<exists>c. (c = Clicked \<or> (\<exists>h. c = Loaded h))
               \<and> evs = [Slept 1, Waited ''before clicking Next'', c,
                        Waited ''page load'', Slept 3])"
    by blast
  with keeps start show ?thesis
    by auto
qed

text \<open>The scraper on a reviews page whose "next" link leads to a page that is not
  found.\<close>

definition last_scraper :: AmazonHTMLScraper where
  "last_scraper =
     scraper_at (reviews_address ''4'')
       (reviews_document (Some (next_element (reviews_address ''5''))))"

lemma last_scraper_turn:
  "\<exists>s'. review_loop sample_env 4 last_scraper = (None, s')
     \<and> showing shop (reviews_address ''5'') missing_document s'"
proof -
  have "looks_like_last_page (page_view (reviews_address ''5'') missing_document)"
    by (simp add: looks_like_last_page_letters [of _ 5000] missing_document_def sample_titles)
  moreover have "\<not> blocked_url (reviews_address ''4'')"
    by code_simp
  moreover have "showing shop (reviews_address ''4'')
      (reviews_document (Some (next_element (reviews_address ''5'')))) last_scraper"
    by (simp add: showing_def last_scraper_def scraper_at_def)
  ultimately have "\<exists>s'. review_turn sample_env 4 last_scraper = Stop None s'
      \<and> showing shop (reviews_address ''5'') missing_document s'
      \<and> saved s' = saved last_scraper \<and> output_file s' = output_file last_scraper"
    by (intro review_turn_last_page [where t = "reviews_address ''5''"
          and u = "reviews_address ''4''"
          and pg = "reviews_document (Some (next_element (reviews_address ''5'')))"])
      (simp_all add: reviews_document_candidates reviews_document_next next_element_fields
        shop_pages)
  then show ?thesis
    by (auto simp: review_loop.simps [of sample_env 4 last_scraper] MAX_REVIEW_PAGES_def)
qed

theorem last_page_never_saved_witness:
  "fst (review_loop sample_env 4 last_scraper) = None
   \<and> view (browser (snd (review_loop sample_env 4 last_scraper)))
       = page_view (reviews_address ''5'') missing_document
   \<and> looks_like_last_page (page_view (reviews_address ''5'') missing_document)
   \<and> (''reviews_page_5'', page_view (reviews_address ''5'') missing_document,
        ''2024-01-01 12:00:00'')
       \<notin> set (saved (snd (review_loop sample_env 4 last_scraper)))"
proof -
  from last_scraper_turn obtain s' where
    run: "review_loop sample_env 4 last_scraper = (None, s')"
    and at: "showing shop (reviews_address ''5'') missing_document s'"
    by blast
  have last: "looks_like_last_page (page_view (reviews_address ''5'') missing_document)"
    by (simp add: looks_like_last_page_letters [of _ 5000] missing_document_def sample_titles)
  have "saved last_scraper = []"
    by (simp add: last_scraper_def scraper_at_def)
  with last_page_never_saved [OF run] obtain new where
    "saved s' = new"
    "\<forall>p \<in> set new. \<not> looks_like_last_page (fst (snd p))
        \<and> (\<exists>k. 4 < k \<and> fst p = ''reviews_page_'' @ str_nat k)"
    by auto
  with last have "(''reviews_page_5'', page_view (reviews_address ''5'') missing_document,
        ''2024-01-01 12:00:00'') \<notin> set (saved s')"
    by fastforce
  with run at last show ?thesis
    by (simp add: showing_def view_def)
qed

end
